theory Spec2Isabelle
  imports Complex_Main "HOL-Library.Monad_Syntax" "HOL-Library.Multiset"
begin

section \<open>Tensors of the array library\<close>

text \<open>
  The network of \<^verbatim>\<open>examples/es6/machine-learning/ann.js\<close> computes with two-dimensional
  arrays of the array library. A tensor is the list of its rows. Elements are real numbers:
  the rounding of the library's 32-bit floats is outside this model. A value
  of type \<open>'a option\<close> is \<open>None\<close> when the call does not return normally (the
  library or the JavaScript runtime raises).
\<close>

type_synonym tensor = "real list list"

text \<open>A tensor has shape \<open>(b, n)\<close> when it has \<open>b\<close> rows of \<open>n\<close> entries each.\<close>

definition shape :: "tensor \<Rightarrow> nat \<Rightarrow> nat \<Rightarrow> bool" where
  "shape t b n = (length t = b \<and> list_all (\<lambda>r. length r = n) t)"

text \<open>
  Modelled from the spec: \<open>dims(axis)\<close> queries the shape. Axis 0 counts rows, axis 1
  columns; every further axis of a two-dimensional array has extent 1.
\<close>

definition dims :: "tensor \<Rightarrow> nat \<Rightarrow> nat" where
  "dims t axis =
     (if axis = 0 then length t
      else if axis = 1 then (case t of [] \<Rightarrow> 0 | r # _ \<Rightarrow> length r)
      else 1)"

text \<open>Modelled from the spec: \<open>elements()\<close> is the total element count.\<close>

definition elements :: "tensor \<Rightarrow> nat" where
  "elements t = dims t 0 * dims t 1"

definition sameDims :: "tensor \<Rightarrow> tensor \<Rightarrow> bool" where
  "sameDims a b = (dims a 0 = dims b 0 \<and> dims a 1 = dims b 1)"

text \<open>
  Modelled from the spec: element-wise arithmetic producing new tensors. Combining
  tensors of different dimensions fails in the library (spec, section 7).
\<close>

definition zipT :: "(real \<Rightarrow> real \<Rightarrow> real) \<Rightarrow> tensor \<Rightarrow> tensor \<Rightarrow> tensor option" where
  "zipT f a b = (if sameDims a b then Some (map2 (map2 f) a b) else None)"

definition subT :: "tensor \<Rightarrow> tensor \<Rightarrow> tensor option" where
  "subT a b = zipT (-) a b"

definition mulT :: "tensor \<Rightarrow> tensor \<Rightarrow> tensor option" where
  "mulT a b = zipT (*) a b"

text \<open>\<open>w.addAssign(g)\<close> is the in-place \<open>w += g\<close>; the model returns the new value of \<open>w\<close>.\<close>

definition addAssign :: "tensor \<Rightarrow> tensor \<Rightarrow> tensor option" where
  "addAssign w g = zipT (+) w g"

text \<open>Modelled from the spec: the scalar-broadcast variants. \<open>a.rhsSub(c)\<close> is \<open>c - a\<close>.\<close>

definition rhsSub :: "tensor \<Rightarrow> real \<Rightarrow> tensor" where
  "rhsSub a c = map (map (\<lambda>x. c - x)) a"

definition mulS :: "tensor \<Rightarrow> real \<Rightarrow> tensor" where
  "mulS a c = map (map (\<lambda>x. x * c)) a"

definition subS :: "tensor \<Rightarrow> real \<Rightarrow> tensor" where
  "subS a c = map (map (\<lambda>x. x - c)) a"

definition neg :: "tensor \<Rightarrow> tensor" where
  "neg a = map (map uminus) a"

text \<open>
  Division by the scalar 0 has no real value (the library's floats give infinities
  or NaN), so it is not a normal result of the model.
\<close>

definition divS :: "tensor \<Rightarrow> real \<Rightarrow> tensor option" where
  "divS a c = (if c = 0 then None else Some (map (map (\<lambda>x. x / c)) a))"

text \<open>Modelled from the spec: \<open>sigmoid(A)\<close> element-wise, \<open>1 / (1 + e\<^sup>-\<^sup>x)\<close>.\<close>

definition sigmoid :: "tensor \<Rightarrow> tensor" where
  "sigmoid a = map (map (\<lambda>x. 1 / (1 + exp (- x)))) a"

text \<open>Modelled from the spec: \<open>transpose(A)\<close>.\<close>

definition col :: "nat \<Rightarrow> tensor \<Rightarrow> real list" where
  "col j t = map (\<lambda>r. r ! j) t"

definition transposeT :: "tensor \<Rightarrow> tensor" where
  "transposeT t = map (\<lambda>j. col j t) [0..<dims t 1]"

text \<open>
  Modelled from the spec: \<open>matmul(A, B)\<close>, which fails when the inner dimensions
  are incompatible (spec, section 7).
\<close>

definition dot :: "real list \<Rightarrow> real list \<Rightarrow> real" where
  "dot u v = sum_list (map2 (*) u v)"

definition matMul :: "tensor \<Rightarrow> tensor \<Rightarrow> tensor option" where
  "matMul a b =
     (if dims a 1 = dims b 0
      then Some (map (\<lambda>r. map (\<lambda>j. dot r (col j b)) [0..<dims b 1]) a)
      else None)"

text \<open>
  Modelled from the spec: the source calls \<open>af.matMulTT(delta, w)\<close>, the library's
  product with both operands transposed. Section 4.5 gives \<open>delta\<close> the shape
  \<open>(layerSize[i+1], batch)\<close>, the weight the shape \<open>(layerSize[i]+1, layerSize[i+1])\<close>
  and the product the shape \<open>(batch, layerSize[i]+1)\<close> (one column more than
  \<open>Signal[i]\<close>); the product of the two transposes is the one with that shape.
\<close>

definition matMulTT :: "tensor \<Rightarrow> tensor \<Rightarrow> tensor option" where
  "matMulTT a b = matMul (transposeT a) (transposeT b)"

text \<open>
  Modelled from the spec: \<open>constant(value, rows, dtype)\<close> builds a column of \<open>rows\<close>
  entries, all equal to \<open>value\<close>.
\<close>

definition constantT :: "real \<Rightarrow> nat \<Rightarrow> tensor" where
  "constantT v rows = replicate rows [v]"

text \<open>
  Modelled from the spec: \<open>concat(axis, A, B)\<close> for axis 1 puts the columns of \<open>B\<close>
  after those of \<open>A\<close>; it fails on mismatched row counts (spec, section 7).
\<close>

definition join1 :: "tensor \<Rightarrow> tensor \<Rightarrow> tensor option" where
  "join1 a b = (if dims a 0 = dims b 0 then Some (map2 (@) a b) else None)"

text \<open>Modelled from the spec: \<open>sum(A)\<close> over all elements, returning a scalar.\<close>

definition sumT :: "tensor \<Rightarrow> real" where
  "sumT a = sum_list (map sum_list a)"

text \<open>
  Modelled from the spec: range-based slicing \<open>A[rowStart..rowEnd, allColumns]\<close> and
  \<open>A[allRows, colStart..colEnd]\<close>. A \<open>Seq\<close> holds the two bounds as the source computes
  them (JavaScript numbers).
\<close>

record Seq =
  seqBegin :: real
  seqEnd :: real

text \<open>
  The bounds of the \<open>Seq\<close> are whole numbers that stay inside an axis of extent \<open>n\<close>:
  the first index is not before 0 and the last one not past \<open>n - 1\<close>. The range may be
  empty (\<open>begin = end + 1\<close>).
\<close>

definition inRange :: "Seq \<Rightarrow> nat \<Rightarrow> bool" where
  "inRange s n =
     (of_int \<lfloor>seqBegin s\<rfloor> = seqBegin s \<and> of_int \<lfloor>seqEnd s\<rfloor> = seqEnd s
      \<and> 0 \<le> seqBegin s \<and> seqBegin s \<le> seqEnd s + 1 \<and> seqEnd s < real n)"

text \<open>The entries whose index lies between the bounds, both inclusive.\<close>

definition slice :: "Seq \<Rightarrow> 'a list \<Rightarrow> 'a list" where
  "slice s xs = drop (nat \<lceil>seqBegin s\<rceil>) (take (nat (\<lfloor>seqEnd s\<rfloor> + 1)) xs)"

text \<open>
  Modelled from the spec: the spec gives the slice for a range of rows (columns) of the
  array. For any other \<open>Seq\<close> (a bound before index 0 or past the last index, a
  fractional bound) it does not say which rows the library selects, nor whether it
  raises. The answer of the library to such a \<open>Seq\<close> is a parameter of the model: the
  two functions of the library handle \<^verbatim>\<open>af\<close>.
\<close>

record library =
  rowsOut :: "Seq \<Rightarrow> tensor \<Rightarrow> tensor option"
  colsOut :: "Seq \<Rightarrow> tensor \<Rightarrow> tensor option"

definition rowsAt :: "library \<Rightarrow> Seq \<Rightarrow> tensor \<Rightarrow> tensor option" where
  "rowsAt lb s t =
     (if inRange s (length t) then Some (slice s t) else rowsOut lb s t)"

definition colsAt :: "library \<Rightarrow> Seq \<Rightarrow> tensor \<Rightarrow> tensor option" where
  "colsAt lb s t =
     (if list_all (\<lambda>r. inRange s (length r)) t then Some (map (slice s) t)
      else colsOut lb s t)"

section \<open>The network\<close>

text \<open>
  The fields of \<^verbatim>\<open>class ANN\<close>. The field \<^verbatim>\<open>af\<close> is the handle of the library, whose
  operations are the definitions above.
\<close>

record ann =
  af :: library
  numLayers :: nat
  signal :: "tensor list"
  weights :: "tensor list"

text \<open>
  Reading \<^verbatim>\<open>xs[i]\<close> outside the array gives \<^verbatim>\<open>undefined\<close> in JavaScript, on which every
  use made by the source raises.
\<close>

definition nth_opt :: "'a list \<Rightarrow> nat \<Rightarrow> 'a option" where
  "nth_opt xs i = (if i < length xs then Some (xs ! i) else None)"

subsection \<open>deriv and addBias\<close>

definition deriv :: "tensor \<Rightarrow> tensor option" where
  "deriv out = mulT (rhsSub out 1) out"

definition addBias :: "tensor \<Rightarrow> tensor option" where
  "addBias input = join1 (constantT 1 (dims input 0)) input"

subsection \<open>Construction\<close>

text \<open>
  Modelled from the spec: \<open>uniformRandom(rows, cols, dtype)\<close>. The draws come from the
  generator of the library: \<open>g\<close> is its stream of draws and the position in the stream
  is threaded through the calls.
\<close>

definition randu :: "(nat \<Rightarrow> real) \<Rightarrow> nat \<Rightarrow> nat \<Rightarrow> nat \<Rightarrow> tensor \<times> nat" where
  "randu g pos rows cols =
     (map (\<lambda>r. map (\<lambda>c. g (pos + r * cols + c)) [0..<cols]) [0..<rows], pos + rows * cols)"

text \<open>
  One round of the constructor's loop. \<^verbatim>\<open>new af.AFArray()\<close> is the empty array.
\<close>

definition ctorStep :: "(nat \<Rightarrow> real) \<Rightarrow> nat list \<Rightarrow> real \<Rightarrow> nat \<Rightarrow> ann \<times> nat \<Rightarrow> ann \<times> nat" where
  "ctorStep g layers rangeV i st =
     (let net = fst st; pos = snd st;
          net1 = net\<lparr>signal := signal net @ [[]]\<rparr>
      in if int i < int (numLayers net) - 1
         then let rp = randu g pos (layers ! i + 1) (layers ! (i + 1));
                  w = subS (mulS (fst rp) rangeV) (rangeV / 2)
              in (net1\<lparr>weights := weights net1 @ [w]\<rparr>, snd rp)
         else (net1, pos))"

text \<open>
  \<^verbatim>\<open>range = range || 0.05\<close>: an omitted range (\<open>None\<close>) and the range 0 are both falsy
  and give 0.05. No statement of the constructor raises, so a network is always
  returned.
\<close>

definition effRange :: "real option \<Rightarrow> real" where
  "effRange rangeV = (case rangeV of None \<Rightarrow> 0.05 | Some r \<Rightarrow> if r = 0 then 0.05 else r)"

definition ANN :: "library \<Rightarrow> (nat \<Rightarrow> real) \<Rightarrow> nat list \<Rightarrow> real option \<Rightarrow> ann option" where
  "ANN lb g layers rangeV =
     Some (fst (fold (ctorStep g layers (effRange rangeV)) [0..<length layers]
                  (\<lparr>af = lb, numLayers = length layers, signal = [], weights = []\<rparr>, 0)))"

subsection \<open>The error metric\<close>

text \<open>
  A JavaScript number that the source computes by a division: a real number, or NaN
  (from \<open>0 / 0\<close>). A comparison with NaN is false. The number is taken exactly: it
  comes from a sum over the library's 32-bit floats, whose rounding is outside this model.
\<close>

datatype jsnum = Num real | NaN

definition jsLess :: "jsnum \<Rightarrow> real \<Rightarrow> bool" where
  "jsLess x y = (case x of Num r \<Rightarrow> r < y | NaN \<Rightarrow> False)"

text \<open>\<^verbatim>\<open>_calculateError(out, pred)\<close>. The sum of squares is never negative.\<close>

definition calculateError :: "tensor \<Rightarrow> tensor \<Rightarrow> jsnum option" where
  "calculateError out pred = do {
     dif \<leftarrow> subT out pred;
     sq \<leftarrow> mulT dif dif;
     Some (if elements sq = 0 then NaN else Num (sqrt (sumT sq) / real (elements sq)))
   }"

subsection \<open>Forward propagation\<close>

text \<open>The body of the loop of \<^verbatim>\<open>forwardPropagate\<close> at layer \<open>i\<close>.\<close>

definition forwardStep :: "nat \<Rightarrow> ann \<Rightarrow> ann option" where
  "forwardStep i net = do {
     s \<leftarrow> nth_opt (signal net) i;
     inVec \<leftarrow> addBias s;
     w \<leftarrow> nth_opt (weights net) i;
     outVec \<leftarrow> matMul inVec w;
     if i + 1 < length (signal net)
     then Some (net\<lparr>signal := (signal net)[i + 1 := sigmoid outVec]\<rparr>)
     else None
   }"

text \<open>
  \<^verbatim>\<open>for (let i = 0; i < this.numLayers - 1; i++)\<close>; \<open>n\<close> is \<^verbatim>\<open>this.numLayers\<close>, which
  nothing assigns after construction.
\<close>

function forwardLoop :: "nat \<Rightarrow> nat \<Rightarrow> ann \<Rightarrow> ann option" where
  "forwardLoop n i net =
     (if int i < int n - 1
      then (case forwardStep i net of
              None \<Rightarrow> None
            | Some net' \<Rightarrow> forwardLoop n (i + 1) net')
      else Some net)"
  by pat_completeness auto
termination
  by (relation "measure (\<lambda>(n, i, net). n - i)") auto

definition forwardPropagate :: "ann \<Rightarrow> tensor \<Rightarrow> ann option" where
  "forwardPropagate net input =
     (if signal net = [] then None
      else forwardLoop (numLayers net) 0 (net\<lparr>signal := (signal net)[0 := input]\<rparr>))"

subsection \<open>Backward propagation\<close>

text \<open>
  The body of the loop of \<^verbatim>\<open>backPropagate\<close> at layer \<open>i\<close>. The loop carries the
  network and the variables \<^verbatim>\<open>outVec\<close> and \<^verbatim>\<open>err\<close>.
\<close>

definition backStep :: "real \<Rightarrow> nat \<Rightarrow> nat \<Rightarrow> ann \<times> tensor \<times> tensor \<Rightarrow> (ann \<times> tensor \<times> tensor) option" where
  "backStep alpha m i st = (case st of (net, outVec, err) \<Rightarrow> do {
     s \<leftarrow> nth_opt (signal net) i;
     inVec \<leftarrow> addBias s;
     d \<leftarrow> deriv outVec;
     de \<leftarrow> mulT d err;
     let delta = transposeT de;
     mm \<leftarrow> matMul delta inVec;
     grad \<leftarrow> divS (neg (mulS mm alpha)) (real m);
     w \<leftarrow> nth_opt (weights net) i;
     w' \<leftarrow> addAssign w (transposeT grad);
     let net' = net\<lparr>weights := (weights net)[i := w']\<rparr>;
     let outVec' = s;
     e1 \<leftarrow> matMulTT delta w';
     err' \<leftarrow> colsAt (af net) \<lparr>seqBegin = 1, seqEnd = real (dims outVec' 1)\<rparr> e1;
     Some (net', outVec', err')
   })"

text \<open>
  \<^verbatim>\<open>for (let i = this.numLayers - 2; i >= 0; i--)\<close>: \<open>backLoop alpha m k\<close> runs the rounds
  \<open>i = k - 1, ..., 0\<close>.
\<close>

primrec backLoop :: "real \<Rightarrow> nat \<Rightarrow> nat \<Rightarrow> ann \<times> tensor \<times> tensor \<Rightarrow> (ann \<times> tensor \<times> tensor) option" where
  "backLoop alpha m 0 st = Some st"
| "backLoop alpha m (Suc i) st =
     (case backStep alpha m i st of
        None \<Rightarrow> None
      | Some st' \<Rightarrow> backLoop alpha m i st')"

definition backPropagate :: "ann \<Rightarrow> tensor \<Rightarrow> real \<Rightarrow> ann option" where
  "backPropagate net target alpha =
     (if numLayers net = 0 then None
      else do {
        outVec \<leftarrow> nth_opt (signal net) (numLayers net - 1);
        err \<leftarrow> subT outVec target;
        let m = dims target 0;
        st \<leftarrow> backLoop alpha m (numLayers net - 1) (net, outVec, err);
        Some (fst st)
      })"

subsection \<open>Prediction and training\<close>

text \<open>\<^verbatim>\<open>predict\<close> returns a copy of the last signal; the model returns the network too.\<close>

definition predict :: "ann \<Rightarrow> tensor \<Rightarrow> (ann \<times> tensor) option" where
  "predict net input = do {
     net' \<leftarrow> forwardPropagate net input;
     out \<leftarrow> (if numLayers net' = 0 then None
              else nth_opt (signal net') (numLayers net' - 1));
     Some (net', out)
   }"

record options =
  batchSize :: nat
  maxEpochs :: nat
  alpha :: real
  maxError :: real

text \<open>
  The sizes, indices and bounds that \<^verbatim>\<open>train\<close> computes are JavaScript numbers, that is,
  IEEE 754 doubles: an arithmetic operation returns the double nearest to its exact
  result and, of two nearest doubles, the one with the even significand. A double has a
  significand of 53 bits and an exponent from \<open>-1022\<close> to \<open>1023\<close>; below \<open>pow2 (-1022)\<close> the
  doubles are the multiples of \<open>pow2 (-1074)\<close>. A result of magnitude \<open>pow2 1024\<close> or more is
  Infinity; the numbers that \<^verbatim>\<open>train\<close> computes from the sizes of arrays stay far below,
  and \<open>toDouble\<close> does not model it. \<open>pow2 e\<close> is the power of 2 with the exponent \<open>e\<close>.
\<close>

definition pow2 :: "int \<Rightarrow> real" where
  "pow2 e = (if 0 \<le> e then 2 ^ nat e else 1 / 2 ^ nat (- e))"

text \<open>The nearest whole number, the even one of two nearest.\<close>

definition roundEven :: "real \<Rightarrow> int" where
  "roundEven y =
     (let f = \<lfloor>y\<rfloor>
      in if y - of_int f < 1 / 2 then f
         else if 1 / 2 < y - of_int f then f + 1
         else if even f then f else f + 1)"

text \<open>
  The exponent \<open>e\<close> of the doubles next to \<open>x\<close>, \<open>pow2 e \<le> |x| < pow2 (e + 1)\<close>: searched
  upwards from 0 or downwards from \<open>-1\<close>, and kept between \<open>-1022\<close> and \<open>1023\<close>.
\<close>

primrec expUp :: "nat \<Rightarrow> real \<Rightarrow> int \<Rightarrow> int" where
  "expUp 0 x e = e"
| "expUp (Suc k) x e = (if pow2 (e + 1) \<le> x then expUp k x (e + 1) else e)"

primrec expDown :: "nat \<Rightarrow> real \<Rightarrow> int \<Rightarrow> int" where
  "expDown 0 x e = e"
| "expDown (Suc k) x e = (if x < pow2 e then expDown k x (e - 1) else e)"

definition exponent :: "real \<Rightarrow> int" where
  "exponent x = (if 1 \<le> \<bar>x\<bar> then expUp 1023 \<bar>x\<bar> 0 else expDown 1021 \<bar>x\<bar> (- 1))"

text \<open>
  The double nearest to \<open>x\<close>: the doubles next to \<open>x\<close> are the whole multiples of
  \<open>pow2 (e - 52)\<close>, and \<open>x\<close> is rounded to the nearest of them.
\<close>

definition toDouble :: "real \<Rightarrow> real" where
  "toDouble x = (let u = pow2 (exponent x - 52) in of_int (roundEven (x / u)) * u)"

text \<open>The operators \<^verbatim>\<open>/\<close>, \<^verbatim>\<open>*\<close>, \<^verbatim>\<open>+\<close> and \<^verbatim>\<open>-\<close> on numbers (the divisor is not 0).\<close>

definition jsDiv :: "real \<Rightarrow> real \<Rightarrow> real" where
  "jsDiv x y = toDouble (x / y)"

definition jsMul :: "real \<Rightarrow> real \<Rightarrow> real" where
  "jsMul x y = toDouble (x * y)"

definition jsAdd :: "real \<Rightarrow> real \<Rightarrow> real" where
  "jsAdd x y = toDouble (x + y)"

definition jsSub :: "real \<Rightarrow> real \<Rightarrow> real" where
  "jsSub x y = toDouble (x - y)"

text \<open>
  \<^verbatim>\<open>numBatches = numSamples / options.batchSize\<close>, for a batch size other than 0. The
  number of samples, the batch size and the counter \<^verbatim>\<open>j\<close> of the loop are whole numbers;
  those below \<open>2 ^ 53\<close> are doubles.
\<close>

definition numBatchesOf :: "nat \<Rightarrow> nat \<Rightarrow> real" where
  "numBatchesOf numSamples bs = jsDiv (real numSamples) (real bs)"

text \<open>The rows of training batch \<open>j\<close>: \<^verbatim>\<open>new Seq(startPos, endPos)\<close>.\<close>

definition trainSeq :: "options \<Rightarrow> nat \<Rightarrow> Seq" where
  "trainSeq opts j =
     (let startPos = jsMul (real j) (real (batchSize opts));
          endPos = jsSub (jsAdd startPos (real (batchSize opts))) 1
      in \<lparr>seqBegin = startPos, seqEnd = endPos\<rparr>)"

text \<open>The rows of the validation step.\<close>

definition validSeq :: "options \<Rightarrow> nat \<Rightarrow> real \<Rightarrow> Seq" where
  "validSeq opts numSamples numBatches =
     (let startPos = jsMul (jsSub numBatches 1) (real (batchSize opts));
          endPos = jsSub (real numSamples) 1
      in \<lparr>seqBegin = startPos, seqEnd = endPos\<rparr>)"

definition trainBatch :: "options \<Rightarrow> tensor \<Rightarrow> tensor \<Rightarrow> nat \<Rightarrow> ann \<Rightarrow> ann option" where
  "trainBatch opts input target j net = do {
     x \<leftarrow> rowsAt (af net) (trainSeq opts j) input;
     y \<leftarrow> rowsAt (af net) (trainSeq opts j) target;
     net1 \<leftarrow> forwardPropagate net x;
     backPropagate net1 y (alpha opts)
   }"

text \<open>\<^verbatim>\<open>for (let j = 0; j < numBatches - 1; j++)\<close>.\<close>

function batchLoop :: "options \<Rightarrow> tensor \<Rightarrow> tensor \<Rightarrow> real \<Rightarrow> nat \<Rightarrow> ann \<Rightarrow> ann option" where
  "batchLoop opts input target numBatches j net =
     (if real j < jsSub numBatches 1
      then (case trainBatch opts input target j net of
              None \<Rightarrow> None
            | Some net' \<Rightarrow> batchLoop opts input target numBatches (j + 1) net')
      else Some net)"
  by pat_completeness auto
termination
  by (relation "measure (\<lambda>(opts, input, target, numBatches, j, net).
        nat \<lceil>jsSub numBatches 1\<rceil> - j)")
     (auto, linarith)

definition validate :: "options \<Rightarrow> tensor \<Rightarrow> tensor \<Rightarrow> nat \<Rightarrow> real \<Rightarrow> ann \<Rightarrow> (ann \<times> jsnum) option" where
  "validate opts input target numSamples numBatches net =
     (let s = validSeq opts numSamples numBatches
      in do {
        x \<leftarrow> rowsAt (af net) s input;
        p \<leftarrow> predict net x;
        y \<leftarrow> rowsAt (af net) s target;
        err \<leftarrow> calculateError (snd p) y;
        Some (fst p, err)
      })"

text \<open>
  The loop over the epochs, \<open>k\<close> epochs being left. The timing and the log lines of the
  source do not act on the network or on \<^verbatim>\<open>err\<close> and are left out.
\<close>

primrec epochLoop :: "options \<Rightarrow> tensor \<Rightarrow> tensor \<Rightarrow> nat \<Rightarrow> real \<Rightarrow> nat \<Rightarrow> ann \<times> jsnum \<Rightarrow> (ann \<times> jsnum) option" where
  "epochLoop opts input target numSamples numBatches 0 st = Some st"
| "epochLoop opts input target numSamples numBatches (Suc k) st =
     (case batchLoop opts input target numBatches 0 (fst st) of
        None \<Rightarrow> None
      | Some net1 \<Rightarrow>
          (case validate opts input target numSamples numBatches net1 of
             None \<Rightarrow> None
           | Some st' \<Rightarrow>
               if jsLess (snd st') (maxError opts) then Some st'
               else epochLoop opts input target numSamples numBatches k st'))"

text \<open>
  \<^verbatim>\<open>train\<close> returns \<^verbatim>\<open>err\<close>; the model returns the network too. With a batch size of 0
  the quotient \<^verbatim>\<open>numBatches\<close> is Infinity or NaN: for Infinity the loop over the batches
  never exits, and the model gives no result for either.
\<close>

definition train :: "ann \<Rightarrow> tensor \<Rightarrow> tensor \<Rightarrow> options \<Rightarrow> (ann \<times> jsnum) option" where
  "train net input target opts =
     (let numSamples = dims input 0
      in if maxEpochs opts = 0 then Some (net, Num 0)
         else if batchSize opts = 0 then None
         else epochLoop opts input target numSamples
                (numBatchesOf numSamples (batchSize opts)) (maxEpochs opts) (net, Num 0))"

section \<open>Notions used by the statements\<close>

text \<open>A library that raises on every \<open>Seq\<close> that leaves the array.\<close>

definition raising :: library where
  "raising = \<lparr>rowsOut = \<lambda>_ _. None, colsOut = \<lambda>_ _. None\<rparr>"

text \<open>Every entry of the tensor lies in \<open>[-c, c]\<close>.\<close>

definition bounded :: "real \<Rightarrow> tensor \<Rightarrow> bool" where
  "bounded c t = (\<forall>row\<in>set t. \<forall>x\<in>set row. - c \<le> x \<and> x \<le> c)"

text \<open>The state of the constructor after the rounds \<open>0, ..., k - 1\<close> of its loop.\<close>

definition ctorState :: "library \<Rightarrow> (nat \<Rightarrow> real) \<Rightarrow> nat list \<Rightarrow> real \<Rightarrow> nat \<Rightarrow> ann \<times> nat" where
  "ctorState lb g layers r k =
     fold (ctorStep g layers r) [0..<k]
       (\<lparr>af = lb, numLayers = length layers, signal = [], weights = []\<rparr>, 0)"

text \<open>
  A network built for the layer sizes \<open>layers\<close>: \<open>L\<close> signals, \<open>L - 1\<close> weights,
  \<open>Weight[i]\<close> of shape \<open>(layerSize[i] + 1, layerSize[i + 1])\<close>.
\<close>

definition wfNet :: "nat list \<Rightarrow> ann \<Rightarrow> bool" where
  "wfNet layers net =
     (numLayers net = length layers \<and> length (signal net) = length layers
      \<and> length (weights net) = length layers - 1
      \<and> (\<forall>i. i + 1 < length layers \<longrightarrow>
             shape (weights net ! i) (layers ! i + 1) (layers ! (i + 1))))"

text \<open>
  The spec's words for one layer of the forward pass (section 4.4):
  \<open>Signal[i+1] = sigmoid(matmul(addBias(Signal[i]), Weight[i]))\<close>.
\<close>

definition specLayer :: "tensor \<Rightarrow> tensor \<Rightarrow> tensor option" where
  "specLayer s w = do {
     biased \<leftarrow> addBias s;
     z \<leftarrow> matMul biased w;
     Some (sigmoid z)
   }"

text \<open>
  The spec's words for the backward pass (section 4.5):
  \<open>delta = transpose(deriv(outVec) * err)\<close>,
  \<open>grad = transpose(matmul(delta, biasedIn) * alpha * -1 / m)\<close> and
  \<open>Weight[i] += grad\<close> with \<open>biasedIn = addBias(Signal[i])\<close>.
\<close>

definition specDelta :: "tensor \<Rightarrow> tensor \<Rightarrow> tensor option" where
  "specDelta outVec err = do {
     d \<leftarrow> deriv outVec;
     de \<leftarrow> mulT d err;
     Some (transposeT de)
   }"

definition specGrad :: "tensor \<Rightarrow> tensor \<Rightarrow> real \<Rightarrow> nat \<Rightarrow> tensor option" where
  "specGrad delta biasedIn lr m = do {
     mm \<leftarrow> matMul delta biasedIn;
     g \<leftarrow> divS (mulS (mulS mm lr) (- 1)) (real m);
     Some (transposeT g)
   }"

definition specUpdate :: "tensor \<Rightarrow> tensor \<Rightarrow> tensor \<Rightarrow> tensor \<Rightarrow> real \<Rightarrow> nat \<Rightarrow> tensor option" where
  "specUpdate w s outVec err lr m = do {
     delta \<leftarrow> specDelta outVec err;
     biasedIn \<leftarrow> addBias s;
     grad \<leftarrow> specGrad delta biasedIn lr m;
     addAssign w grad
   }"

text \<open>
  The rounds \<open>i + d - 1, ..., i\<close> of the loop of \<^verbatim>\<open>backPropagate\<close>, in the order in which
  the loop runs them.
\<close>

primrec backRounds :: "real \<Rightarrow> nat \<Rightarrow> nat \<Rightarrow> nat \<Rightarrow> ann \<times> tensor \<times> tensor \<Rightarrow> (ann \<times> tensor \<times> tensor) option" where
  "backRounds lr m i 0 st = Some st"
| "backRounds lr m i (Suc d) st =
     (case backStep lr m (i + d) st of
        None \<Rightarrow> None
      | Some st' \<Rightarrow> backRounds lr m i d st')"

text \<open>
  The error propagated to layer \<open>i\<close>: the value of \<^verbatim>\<open>err\<close> when round \<open>i\<close> of the loop
  of \<^verbatim>\<open>backPropagate\<close> begins, that is, after the rounds \<open>L - 2, ..., i + 1\<close>.
\<close>

definition propErr :: "ann \<Rightarrow> tensor \<Rightarrow> real \<Rightarrow> nat \<Rightarrow> tensor option" where
  "propErr net target lr i = do {
     outVec \<leftarrow> nth_opt (signal net) (numLayers net - 1);
     err \<leftarrow> subT outVec target;
     st \<leftarrow> backRounds lr (dims target 0) (i + 1) (numLayers net - 1 - (i + 1)) (net, outVec, err);
     Some (snd (snd st))
   }"

text \<open>
  The words of the claim on the error handed to the earlier layer:
  \<open>matmul(delta, transpose(Weight[i]))\<close> with column 0 dropped.
\<close>

definition claimedErr :: "tensor \<Rightarrow> tensor \<Rightarrow> tensor option" where
  "claimedErr delta w = do {
     e \<leftarrow> matMul delta (transposeT w);
     Some (map tl e)
   }"


text \<open>The training batches with the indices \<open>js\<close>, run in this order.\<close>

primrec runBatches :: "options \<Rightarrow> tensor \<Rightarrow> tensor \<Rightarrow> nat list \<Rightarrow> ann \<Rightarrow> ann option" where
  "runBatches opts input target [] net = Some net"
| "runBatches opts input target (j # js) net =
     (case trainBatch opts input target j net of
        None \<Rightarrow> None
      | Some net' \<Rightarrow> runBatches opts input target js net')"

text \<open>
  Two networks that differ in the contents of their signal buffers only.
\<close>

definition simNet :: "ann \<Rightarrow> ann \<Rightarrow> bool" where
  "simNet a b =
     (af a = af b \<and> numLayers a = numLayers b \<and> weights a = weights b
      \<and> length (signal a) = length (signal b))"




text \<open>
  A library that counts a first index below 0 from the end of the axis and raises on every
  other \<open>Seq\<close> that leaves the array.
\<close>

definition wrapping :: library where
  "wrapping =
     \<lparr>rowsOut = (\<lambda>s t. if seqBegin s < 0
                   then Some (slice \<lparr>seqBegin = seqBegin s + real (length t), seqEnd = seqEnd s\<rparr> t)
                   else None),
      colsOut = (\<lambda>_ _. None)\<rparr>"






section \<open>Shapes of the library operations\<close>

lemma shape_dims0: "shape t b n \<Longrightarrow> dims t 0 = b"
  by (simp add: shape_def dims_def)

lemma shape_dims1: "shape t b n \<Longrightarrow> 0 < b \<Longrightarrow> dims t 1 = n"
  by (cases t) (simp_all add: shape_def dims_def)

lemma shape_row: "shape t b n \<Longrightarrow> i < b \<Longrightarrow> length (t ! i) = n"
  by (simp add: shape_def list_all_length)

lemma shapeI: "length t = b \<Longrightarrow> (\<And>i. i < b \<Longrightarrow> length (t ! i) = n) \<Longrightarrow> shape t b n"
  by (simp add: shape_def list_all_length)

lemma addBias_eq: "addBias t = Some (map (\<lambda>r. 1 # r) t)"
proof -
  have "map2 (@) (replicate (length t) [1]) t = map (\<lambda>r. 1 # r) t"
    by (rule nth_equalityI) simp_all
  then show ?thesis
    by (simp add: addBias_def join1_def constantT_def dims_def)
qed

lemma inRange_cols: "inRange \<lparr>seqBegin = 1, seqEnd = real n\<rparr> (n + 1)"
  by (simp add: inRange_def)

lemma slice_cols:
  assumes "length r = n + 1"
  shows "slice \<lparr>seqBegin = 1, seqEnd = real n\<rparr> r = tl r"
proof -
  have "nat (int n + 1) = Suc n" by simp
  then show ?thesis using assms by (simp add: slice_def drop_Suc)
qed

lemma dropCol0:
  assumes "shape e b (n + 1)"
  shows "colsAt lb \<lparr>seqBegin = 1, seqEnd = real n\<rparr> e = Some (map tl e)"
    and "shape (map tl e) b n"
proof -
  have len: "length e = b" and rows: "\<And>i. i < b \<Longrightarrow> length (e ! i) = n + 1"
    using assms by (simp_all add: shape_def list_all_length)
  have all: "\<forall>r\<in>set e. length r = n + 1"
    using assms by (simp add: shape_def list_all_iff)
  then have "list_all (\<lambda>r. inRange \<lparr>seqBegin = 1, seqEnd = real n\<rparr> (length r)) e"
    using inRange_cols [of n] by (simp add: list_all_iff)
  moreover have "map (slice \<lparr>seqBegin = 1, seqEnd = real n\<rparr>) e = map tl e"
    using all by (simp add: slice_cols)
  ultimately show "colsAt lb \<lparr>seqBegin = 1, seqEnd = real n\<rparr> e = Some (map tl e)"
    by (simp add: colsAt_def)
  show "shape (map tl e) b n"
    by (rule shapeI) (simp_all add: len rows)
qed

text \<open>
  C10: for every tensor \<open>T\<close> of shape \<open>(b, n)\<close>, \<open>addBias T\<close> returns a tensor of shape
  \<open>(b, n + 1)\<close> whose column 0 is all ones and whose columns \<open>1..n\<close> are those of \<open>T\<close>.
  The function is pure: it takes the tensor only and returns the new tensor only, so it
  reads and writes no network state.
\<close>

theorem addBias_shape_content:
  assumes "shape T b n"
  shows "\<exists>T'. addBias T = Some T' \<and> shape T' b (n + 1)
           \<and> (\<forall>i<b. T' ! i ! 0 = 1)
           \<and> (\<forall>i<b. \<forall>j<n. T' ! i ! (j + 1) = T ! i ! j)
           \<and> colsAt lb \<lparr>seqBegin = 1, seqEnd = real n\<rparr> T' = Some T"
proof -
  let ?T' = "map (\<lambda>r. 1 # r) T"
  have len: "length T = b" and rows: "\<And>i. i < b \<Longrightarrow> length (T ! i) = n"
    using assms by (simp_all add: shape_def list_all_length)
  have "shape ?T' b (n + 1)"
    by (rule shapeI) (simp_all add: len rows)
  moreover have "\<forall>i<b. ?T' ! i ! 0 = 1"
    by (simp add: len)
  moreover have "\<forall>i<b. \<forall>j<n. ?T' ! i ! (j + 1) = T ! i ! j"
    by (simp add: len)
  moreover have "colsAt lb \<lparr>seqBegin = 1, seqEnd = real n\<rparr> ?T' = Some T"
  proof -
    have "map tl ?T' = T" by (simp add: comp_def)
    with dropCol0(1) [OF \<open>shape ?T' b (n + 1)\<close>, of lb] show ?thesis by simp
  qed
  ultimately show ?thesis
    by (simp add: addBias_eq)
qed

theorem addBias_shape_content_witness:
  "shape [[2, 3], [4, 5]] 2 2 \<and>
   addBias [[2, 3], [4, 5]] = Some [[1, 2, 3], [1, 4, 5]]"
proof -
  have h: "shape [[2, 3], [4, 5 :: real]] 2 2" by (simp add: shape_def)
  from addBias_shape_content [OF h, where lb = "\<lparr>rowsOut = \<lambda>_ _. None, colsOut = \<lambda>_ _. None\<rparr>"]
  obtain T' where
    t: "addBias [[2, 3], [4, 5]] = Some T'" and s: "shape T' 2 3"
    and c0: "\<forall>i<2. T' ! i ! 0 = 1"
    and c1: "\<forall>i<2. \<forall>j<2. T' ! i ! (j + 1) = [[2, 3], [4, 5 :: real]] ! i ! j"
    by auto
  have "T' = [[1, 2, 3], [1, 4, 5]]"
    using t by (simp add: addBias_eq)
  with h t show ?thesis by simp
qed

lemma shape_sameDims: "shape a b n \<Longrightarrow> shape c b n \<Longrightarrow> sameDims a c"
  by (cases a; cases c) (auto simp: shape_def sameDims_def dims_def)

lemma zipT_shape:
  assumes "shape a b n" "shape c b n"
  shows "zipT f a c = Some (map2 (map2 f) a c)" "shape (map2 (map2 f) a c) b n"
proof -
  show "zipT f a c = Some (map2 (map2 f) a c)"
    using shape_sameDims [OF assms] by (simp add: zipT_def)
  have "length a = b" "length c = b" using assms by (simp_all add: shape_def)
  then show "shape (map2 (map2 f) a c) b n"
    using assms by (intro shapeI) (simp_all add: shape_row)
qed

lemma zipT_nth:
  assumes "shape a b n" "shape c b n" "i < b" "j < n"
  shows "map2 (map2 f) a c ! i ! j = f (a ! i ! j) (c ! i ! j)"
proof -
  have "length a = b" "length c = b" using assms by (simp_all add: shape_def)
  then show ?thesis using assms by (simp add: shape_row)
qed

lemma shape_elements: "shape t b n \<Longrightarrow> elements t = b * n"
  by (cases t) (auto simp: elements_def dims_def shape_def)

lemma sumT_nth:
  assumes "shape t b n"
  shows "sumT t = (\<Sum>i<b. \<Sum>j<n. t ! i ! j)"
proof -
  have len: "length t = b" using assms by (simp add: shape_def)
  have "sumT t = (\<Sum>i = 0..<b. sum_list (t ! i))"
    by (simp add: sumT_def sum_list_sum_nth len)
  also have "\<dots> = (\<Sum>i = 0..<b. \<Sum>j = 0..<n. t ! i ! j)"
    by (rule sum.cong) (simp_all add: sum_list_sum_nth shape_row [OF assms])
  finally show ?thesis by (simp add: atLeast0LessThan)
qed

section \<open>The error metric\<close>

lemma calculateError_sum:
  assumes "shape out b n" and "shape pred b n"
  shows "calculateError out pred =
           Some (if b * n = 0 then NaN
                 else Num (sqrt (\<Sum>i<b. \<Sum>j<n. (out ! i ! j - pred ! i ! j)\<^sup>2) / real (b * n)))"
proof -
  define dif where "dif = map2 (map2 (-)) out pred"
  define sq where "sq = map2 (map2 (*)) dif dif"
  have d: "subT out pred = Some dif" "shape dif b n"
    using zipT_shape [OF assms] by (simp_all add: subT_def dif_def)
  have s: "mulT dif dif = Some sq" "shape sq b n"
    using zipT_shape [OF d(2) d(2)] by (simp_all add: mulT_def sq_def)
  have "sumT sq = (\<Sum>i<b. \<Sum>j<n. sq ! i ! j)"
    by (rule sumT_nth [OF s(2)])
  also have "\<dots> = (\<Sum>i<b. \<Sum>j<n. (out ! i ! j - pred ! i ! j)\<^sup>2)"
  proof (intro sum.cong refl)
    fix i j assume "i \<in> {..<b}" "j \<in> {..<n}"
    then have ij: "i < b" "j < n" by simp_all
    show "sq ! i ! j = (out ! i ! j - pred ! i ! j)\<^sup>2"
      unfolding sq_def zipT_nth [OF d(2) d(2) ij]
      unfolding dif_def zipT_nth [OF assms ij]
      by (simp add: power2_eq_square)
  qed
  finally have sum: "sumT sq = (\<Sum>i<b. \<Sum>j<n. (out ! i ! j - pred ! i ! j)\<^sup>2)" .
  have "calculateError out pred =
          Some (if elements sq = 0 then NaN else Num (sqrt (sumT sq) / real (elements sq)))"
    by (simp add: calculateError_def d(1) s(1))
  then show ?thesis
    by (simp only: shape_elements [OF s(2)] sum)
qed

text \<open>
  C5: for tensors \<open>out\<close> and \<open>pred\<close> of one shape \<open>(b, n)\<close>, the error metric is the
  square root of the sum over all elements of \<open>(out - pred)\<^sup>2\<close>, divided by the element
  count \<open>b * n\<close>: the division comes after the root. With no element the quotient is
  \<open>0 / 0\<close>, NaN.
\<close>

theorem calculateError_formula:
  assumes "shape out b n" and "shape pred b n"
  shows "calculateError out pred =
           Some (if b * n = 0 then NaN
                 else Num (sqrt (\<Sum>i<b. \<Sum>j<n. (out ! i ! j - pred ! i ! j)\<^sup>2) / real (b * n)))"
  using assms by (rule calculateError_sum)

theorem calculateError_formula_witness:
  "shape [[3, 0]] 1 2 \<and> shape [[0, 4]] 1 2 \<and>
   calculateError [[3, 0]] [[0, 4]] = Some (Num (5 / 2))"
proof -
  have h1: "shape [[3, 0 :: real]] 1 2" and h2: "shape [[0, 4 :: real]] 1 2"
    by (simp_all add: shape_def)
  have "sqrt ((3::real)\<^sup>2 + 4\<^sup>2) = 5"
    by (rule real_sqrt_unique) simp_all
  then have "sqrt (25::real) = 5" by simp
  with calculateError_formula [OF h1 h2] h1 h2 show ?thesis
    by (simp add: lessThan_Suc numeral_2_eq_2)
qed


section \<open>Construction\<close>

lemma randu_shape: "shape (fst (randu g pos rows cols)) rows cols"
  by (simp add: randu_def shape_def list_all_iff)

lemma initW_shape: "shape (subS (mulS (fst (randu g pos rows cols)) r) (r / 2)) rows cols"
  by (simp add: randu_def shape_def list_all_iff subS_def mulS_def)

lemma draw_bound:
  fixes u r :: real
  assumes "0 \<le> u" "u \<le> 1"
  shows "\<bar>u * r - r / 2\<bar> \<le> \<bar>r\<bar> / 2"
proof -
  have e: "u * r - r / 2 = r * (u - 1 / 2)" by (simp add: algebra_simps)
  have "\<bar>u - 1 / 2\<bar> \<le> 1 / 2" using assms by linarith
  then have "\<bar>r\<bar> * \<bar>u - 1 / 2\<bar> \<le> \<bar>r\<bar> * (1 / 2)"
    by (rule mult_left_mono) simp
  then show ?thesis unfolding e abs_mult by simp
qed

lemma initW_bounded:
  assumes "\<And>k. 0 \<le> g k \<and> g k \<le> 1"
  shows "bounded (\<bar>r\<bar> / 2) (subS (mulS (fst (randu g pos rows cols)) r) (r / 2))"
proof -
  have "- (\<bar>r\<bar> / 2) \<le> g k * r - r / 2 \<and> g k * r - r / 2 \<le> \<bar>r\<bar> / 2" for k
    using draw_bound [of "g k" r] assms [of k] by linarith
  then show ?thesis
    by (auto simp: bounded_def randu_def subS_def mulS_def)
qed

lemma ctorState_Suc:
  "ctorState lb g layers r (Suc k) = ctorStep g layers r k (ctorState lb g layers r k)"
  by (simp add: ctorState_def)

lemma ctorState_inv:
  "af (fst (ctorState lb g layers r k)) = lb
   \<and> numLayers (fst (ctorState lb g layers r k)) = length layers
   \<and> signal (fst (ctorState lb g layers r k)) = replicate k []
   \<and> length (weights (fst (ctorState lb g layers r k))) = min k (length layers - 1)
   \<and> (\<forall>i < min k (length layers - 1). \<exists>pos.
         weights (fst (ctorState lb g layers r k)) ! i =
           subS (mulS (fst (randu g pos (layers ! i + 1) (layers ! (i + 1)))) r) (r / 2))"
proof (induction k)
  case 0
  show ?case by (simp add: ctorState_def)
next
  case (Suc k)
  let ?st = "ctorState lb g layers r k"
  show ?case
  proof (cases "int k < int (length layers) - 1")
    case True
    then have m: "min k (length layers - 1) = k" "min (Suc k) (length layers - 1) = Suc k"
      by auto
    show ?thesis
      using Suc True unfolding m
      by (auto simp: ctorState_Suc ctorStep_def Let_def replicate_append_same nth_append less_Suc_eq)
  next
    case False
    then have m: "min (Suc k) (length layers - 1) = min k (length layers - 1)"
      by auto
    show ?thesis
      using Suc False unfolding m
      by (auto simp: ctorState_Suc ctorStep_def Let_def replicate_append_same)
  qed
qed

lemma ANN_eq: "ANN lb g layers rangeV = Some (fst (ctorState lb g layers (effRange rangeV) (length layers)))"
  by (simp add: ANN_def ctorState_def)

text \<open>
  C6, as amended: for a layer-size sequence with fewer than 2 entries the constructor
  does not fail; it returns a network with one empty signal placeholder per entry and
  no weight matrix.
\<close>

theorem ANN_short_layers:
  assumes "length layers < 2"
  shows "ANN lb g layers rangeV =
           Some \<lparr>af = lb, numLayers = length layers, signal = replicate (length layers) [],
                 weights = []\<rparr>"
proof -
  let ?net = "fst (ctorState lb g layers (effRange rangeV) (length layers))"
  have "min (length layers) (length layers - 1) = 0" using assms by auto
  then have "af ?net = lb" "numLayers ?net = length layers"
    "signal ?net = replicate (length layers) []" "weights ?net = []"
    using ctorState_inv [of lb g layers "effRange rangeV" "length layers"] by simp_all
  then show ?thesis by (simp add: ANN_eq)
qed

theorem ANN_short_layers_witness:
  "length [5 :: nat] < 2 \<and>
   ANN raising (\<lambda>_. 0) [5] None = Some \<lparr>af = raising, numLayers = 1, signal = [[]], weights = []\<rparr>"
  using ANN_short_layers [of "[5]" raising "\<lambda>_. 0" None] by simp

text \<open>
  C6 as stated fails: with one layer size, and with none, a network is returned.
\<close>

theorem ANN_short_layers_counterexample:
  "ANN raising (\<lambda>_. 0) [5] None = Some \<lparr>af = raising, numLayers = 1, signal = [[]], weights = []\<rparr>
   \<and> ANN raising (\<lambda>_. 0) [] None = Some \<lparr>af = raising, numLayers = 0, signal = [], weights = []\<rparr>
   \<and> ANN raising (\<lambda>_. 0) [5] None \<noteq> None"
  by (simp add: ANN_def ctorStep_def)

text \<open>
  C9, as amended: when the draws of the generator lie in \<open>[0, 1]\<close>, the constructed
  network holds \<open>L\<close> signal placeholders and \<open>L - 1\<close> weight matrices, \<open>Weight[i]\<close> has
  shape \<open>(layerSize[i] + 1, layerSize[i + 1])\<close>, and every weight lies in
  \<open>[-|r| / 2, |r| / 2]\<close>, where \<open>r\<close> is the range in effect: the given range, or 0.05
  when the range is omitted or 0.
\<close>

theorem ANN_shape_range:
  assumes "\<And>k. 0 \<le> g k \<and> g k \<le> 1"
  shows "\<exists>net. ANN lb g layers rangeV = Some net
           \<and> numLayers net = length layers
           \<and> length (signal net) = length layers
           \<and> length (weights net) = length layers - 1
           \<and> (\<forall>i. i + 1 < length layers \<longrightarrow>
                 shape (weights net ! i) (layers ! i + 1) (layers ! (i + 1))
                 \<and> bounded (\<bar>effRange rangeV\<bar> / 2) (weights net ! i))"
proof -
  let ?net = "fst (ctorState lb g layers (effRange rangeV) (length layers))"
  note inv = ctorState_inv [of lb g layers "effRange rangeV" "length layers"]
  have "shape (weights ?net ! i) (layers ! i + 1) (layers ! (i + 1))
        \<and> bounded (\<bar>effRange rangeV\<bar> / 2) (weights ?net ! i)"
    if "i + 1 < length layers" for i
  proof -
    from that have "i < min (length layers) (length layers - 1)" by simp
    with inv obtain pos where
      "weights ?net ! i =
         subS (mulS (fst (randu g pos (layers ! i + 1) (layers ! (i + 1)))) (effRange rangeV))
           (effRange rangeV / 2)"
      by blast
    then show ?thesis
      by (simp add: initW_shape initW_bounded [OF assms])
  qed
  then show ?thesis
    using inv by (simp add: ANN_eq)
qed

theorem ANN_shape_range_witness:
  "(\<forall>k::nat. (0::real) \<le> 1 / 2 \<and> (1::real) / 2 \<le> 1) \<and>
   (\<exists>net. ANN raising (\<lambda>_. 1 / 2) [2, 1] (Some 1) = Some net
      \<and> length (weights net) = 1
      \<and> shape (weights net ! 0) 3 1 \<and> bounded (1 / 2) (weights net ! 0))"
proof -
  have h: "\<And>k::nat. (0::real) \<le> (\<lambda>_. 1 / 2) k \<and> (\<lambda>_. 1 / 2) k \<le> (1::real)" by simp
  from ANN_shape_range [of "\<lambda>_. 1 / 2" raising "[2, 1]" "Some 1", OF h]
  show ?thesis by (auto simp: effRange_def)
qed

text \<open>
  C9 as stated fails for the range 0: the constructor replaces it by 0.05, and a draw
  of 1 gives the weight \<open>1 / 40\<close>, outside \<open>[-0 / 2, 0 / 2]\<close>.
\<close>

theorem ANN_range_counterexample:
  "ANN raising (\<lambda>_. 1) [1, 1] (Some 0) =
     Some \<lparr>af = raising, numLayers = 2, signal = [[], []], weights = [[[1 / 40], [1 / 40]]]\<rparr>
   \<and> \<not> bounded (0 / 2) [[1 / 40], [1 / 40]]"
proof -
  have "\<not> bounded (0 / 2) [[1 / 40], [1 / 40]]"
  proof
    assume "bounded (0 / 2) [[1 / 40], [1 / 40]]"
    then have "(1 / 40 :: real) \<le> 0 / 2"
      unfolding bounded_def by (elim ballE [of _ _ "[1 / 40]"] ballE [of _ _ "1 / 40"]) simp_all
    then show False by simp
  qed
  then show ?thesis
    by (simp add: ANN_def ctorStep_def effRange_def randu_def subS_def mulS_def)
qed

section \<open>Forward propagation\<close>

lemma shape_map_map: "shape t b n \<Longrightarrow> shape (map (map f) t) b n"
  by (simp add: shape_def list_all_iff)

lemma sigmoid_shape: "shape t b n \<Longrightarrow> shape (sigmoid t) b n"
  by (simp add: sigmoid_def shape_map_map)

lemma addBias_shape: "shape t b n \<Longrightarrow> shape (map (\<lambda>r. 1 # r) t) b (Suc n)"
  by (simp add: shape_def list_all_iff)

lemma matMul_shape:
  assumes "shape a b k" "shape w k n" "0 < b" "0 < k"
  shows "\<exists>z. matMul a w = Some z \<and> shape z b n"
proof -
  have "dims a 1 = k" "dims w 0 = k" "dims w 1 = n" "length a = b"
    using assms shape_dims1 [of a b k] shape_dims1 [of w k n] shape_dims0 [of w k n]
    by (simp_all add: shape_def)
  then show ?thesis
    by (simp add: matMul_def shape_def list_all_iff)
qed

lemma specLayer_shape:
  assumes "shape s b k" "shape w (k + 1) n" "0 < b"
  shows "\<exists>z. specLayer s w = Some z \<and> shape z b n"
proof -
  from matMul_shape [OF addBias_shape [OF assms(1)] _ assms(3)] assms(2)
  obtain z where "matMul (map (\<lambda>r. 1 # r) s) w = Some z" "shape z b n" by auto
  then show ?thesis
    by (simp add: specLayer_def addBias_eq sigmoid_shape)
qed

lemma forwardStep_Some:
  "forwardStep i net = Some net' \<longleftrightarrow>
     (i + 1 < length (signal net) \<and> i < length (weights net)
      \<and> (\<exists>z. specLayer (signal net ! i) (weights net ! i) = Some z
             \<and> net' = net\<lparr>signal := (signal net)[i + 1 := z]\<rparr>))"
  by (auto simp: forwardStep_def specLayer_def nth_opt_def addBias_eq
      split: bind_splits if_splits)

lemma forwardLoop_props:
  "forwardLoop n i net = Some net' \<Longrightarrow>
     weights net' = weights net \<and> numLayers net' = numLayers net
     \<and> length (signal net') = length (signal net)
     \<and> (\<forall>k\<le>i. signal net' ! k = signal net ! k)
     \<and> (\<forall>k. i \<le> k \<and> k + 1 < n \<longrightarrow>
           Some (signal net' ! (k + 1)) = specLayer (signal net' ! k) (weights net ! k))"
proof (induction n i net rule: forwardLoop.induct)
  case (1 n i net)
  show ?case
  proof (cases "int i < int n - 1")
    case False
    with "1.prems" show ?thesis by auto
  next
    case True
    with "1.prems" obtain net1 where
      st: "forwardStep i net = Some net1" and lp: "forwardLoop n (i + 1) net1 = Some net'"
      by (auto split: option.splits)
    from st obtain z where
      b: "i + 1 < length (signal net)" "i < length (weights net)"
      and z: "specLayer (signal net ! i) (weights net ! i) = Some z"
      and n1: "net1 = net\<lparr>signal := (signal net)[i + 1 := z]\<rparr>"
      unfolding forwardStep_Some by blast
    note IH = "1.IH" [OF True st lp]
    have w: "weights net' = weights net" "numLayers net' = numLayers net"
      "length (signal net') = length (signal net)"
      using IH n1 by simp_all
    have keep: "signal net' ! k = signal net ! k" if "k \<le> i" for k
      using IH n1 that by simp
    have si: "signal net' ! i = signal net ! i" using keep by simp
    have si1: "signal net' ! (i + 1) = z"
      using IH n1 b by simp
    have rel: "Some (signal net' ! (k + 1)) = specLayer (signal net' ! k) (weights net ! k)"
      if "i \<le> k" "k + 1 < n" for k
    proof (cases "k = i")
      case True
      then show ?thesis using si si1 z by simp
    next
      case False
      with that have "i + 1 \<le> k" by simp
      with IH that n1 show ?thesis by simp
    qed
    show ?thesis using w keep rel by blast
  qed
qed

lemma forwardLoop_af: "forwardLoop n i net = Some net' \<Longrightarrow> af net' = af net"
proof (induction n i net rule: forwardLoop.induct)
  case (1 n i net)
  show ?case
  proof (cases "int i < int n - 1")
    case False
    with "1.prems" show ?thesis by simp
  next
    case True
    with "1.prems" obtain net1 where
      st: "forwardStep i net = Some net1" and lp: "forwardLoop n (i + 1) net1 = Some net'"
      by (auto split: option.splits)
    from st have "af net1 = af net" unfolding forwardStep_Some by auto
    with "1.IH" [OF True st lp] show ?thesis by simp
  qed
qed

lemma forwardLoop_total:
  assumes "wfNet layers net" "n = length layers" "i < n" "shape (signal net ! i) b (layers ! i)" "0 < b"
  shows "\<exists>net'. forwardLoop n i net = Some net'
           \<and> (\<forall>k. i \<le> k \<and> k < n \<longrightarrow> shape (signal net' ! k) b (layers ! k))"
  using assms
proof (induction n i net rule: forwardLoop.induct)
  case (1 n i net)
  show ?case
  proof (cases "int i < int n - 1")
    case False
    with "1.prems" have "i + 1 = n" by auto
    then have keq: "k = i" if "i \<le> k" "k < n" for k using that by simp
    have "forwardLoop n i net = Some net" using False by simp
    moreover have "\<forall>k. i \<le> k \<and> k < n \<longrightarrow> shape (signal net ! k) b (layers ! k)"
      using keq "1.prems"(4) by blast
    ultimately show ?thesis by blast
  next
    case True
    with "1.prems" have i1: "i + 1 < length layers" by auto
    have wf: "length (signal net) = length layers" "length (weights net) = length layers - 1"
      "shape (weights net ! i) (layers ! i + 1) (layers ! (i + 1))"
      using "1.prems"(1) i1 by (simp_all add: wfNet_def)
    from specLayer_shape [OF "1.prems"(4) wf(3) "1.prems"(5)] obtain z where
      z: "specLayer (signal net ! i) (weights net ! i) = Some z" "shape z b (layers ! (i + 1))"
      by blast
    define net1 where "net1 = net\<lparr>signal := (signal net)[i + 1 := z]\<rparr>"
    have st: "forwardStep i net = Some net1"
      unfolding forwardStep_Some using wf i1 z by (auto simp: net1_def)
    have wf1: "wfNet layers net1"
      using "1.prems"(1) by (simp add: wfNet_def net1_def)
    have sh1: "shape (signal net1 ! (i + 1)) b (layers ! (i + 1))"
      using z wf i1 by (simp add: net1_def)
    from "1.IH" [OF True st wf1 "1.prems"(2) _ sh1 "1.prems"(5)] i1 "1.prems"(2)
    obtain net' where
      lp: "forwardLoop n (i + 1) net1 = Some net'"
      and sh: "\<forall>k. i + 1 \<le> k \<and> k < n \<longrightarrow> shape (signal net' ! k) b (layers ! k)"
      by auto
    have "signal net' ! i = signal net1 ! i"
      using forwardLoop_props [OF lp] by simp
    then have "shape (signal net' ! i) b (layers ! i)"
      using "1.prems"(4) by (simp add: net1_def)
    with sh have "\<forall>k. i \<le> k \<and> k < n \<longrightarrow> shape (signal net' ! k) b (layers ! k)"
      by (metis Suc_eq_plus1 Suc_leI le_neq_implies_less)
    moreover have "forwardLoop n i net = Some net'"
      using True st lp by simp
    ultimately show ?thesis by blast
  qed
qed


lemma forwardPropagate_ok:
  assumes "wfNet layers net" and "layers \<noteq> []" and "shape input b (layers ! 0)" and "0 < b"
  shows "\<exists>net'. forwardPropagate net input = Some net'
           \<and> weights net' = weights net \<and> numLayers net' = numLayers net
           \<and> length (signal net') = length layers
           \<and> signal net' ! 0 = input
           \<and> (\<forall>i. i + 1 < length layers \<longrightarrow>
                 Some (signal net' ! (i + 1)) = specLayer (signal net' ! i) (weights net ! i))
           \<and> (\<forall>k<length layers. shape (signal net' ! k) b (layers ! k))
           \<and> af net' = af net"
proof -
  define net0 where "net0 = net\<lparr>signal := (signal net)[0 := input]\<rparr>"
  have len: "length (signal net) = length layers" "numLayers net = length layers"
    using assms(1) by (simp_all add: wfNet_def)
  have pos: "0 < length layers" using assms(2) by simp
  have wf0: "wfNet layers net0"
    using assms(1) by (simp add: wfNet_def net0_def)
  have s0: "signal net0 ! 0 = input"
    using len pos by (simp add: net0_def)
  then have sh0: "shape (signal net0 ! 0) b (layers ! 0)"
    using assms(3) by simp
  from forwardLoop_total [OF wf0 refl pos sh0 assms(4)] obtain net' where
    lp: "forwardLoop (length layers) 0 net0 = Some net'"
    and sh: "\<forall>k. 0 \<le> k \<and> k < length layers \<longrightarrow> shape (signal net' ! k) b (layers ! k)"
    by blast
  note pr = forwardLoop_props [OF lp]
  have fp: "forwardPropagate net input = Some net'"
    using lp len pos by (auto simp: forwardPropagate_def net0_def)
  have "weights net' = weights net" "numLayers net' = numLayers net"
    "length (signal net') = length layers" "signal net' ! 0 = input"
    using pr s0 len by (simp_all add: net0_def)
  moreover have "\<forall>i. i + 1 < length layers \<longrightarrow>
      Some (signal net' ! (i + 1)) = specLayer (signal net' ! i) (weights net ! i)"
    using pr by (simp add: net0_def)
  moreover have "af net' = af net"
    using forwardLoop_af [OF lp] by (simp add: net0_def)
  ultimately show ?thesis using fp sh by simp
qed

text \<open>
  C3: on a network built for the layer sizes \<open>layers\<close> and an input of shape
  \<open>(batch, layerSize[0])\<close> with at least one row, \<open>forwardPropagate\<close> returns; afterwards
  \<open>Signal[0]\<close> is the input and, for every \<open>i\<close> from 0 to \<open>L - 2\<close>,
  \<open>Signal[i+1] = sigmoid(matmul(addBias(Signal[i]), Weight[i]))\<close>, so \<open>Signal[L-1]\<close> is the
  output of the network for the batch. The weights are not changed.
\<close>

theorem forwardPropagate_layers:
  assumes "wfNet layers net" and "layers \<noteq> []" and "shape input b (layers ! 0)" and "0 < b"
  shows "\<exists>net'. forwardPropagate net input = Some net'
           \<and> weights net' = weights net \<and> numLayers net' = numLayers net
           \<and> length (signal net') = length layers
           \<and> signal net' ! 0 = input
           \<and> (\<forall>i. i + 1 < length layers \<longrightarrow>
                 Some (signal net' ! (i + 1)) = specLayer (signal net' ! i) (weights net ! i))
           \<and> (\<forall>k<length layers. shape (signal net' ! k) b (layers ! k))
           \<and> af net' = af net"
  using assms by (rule forwardPropagate_ok)

theorem forwardPropagate_layers_witness:
  "wfNet [1, 1] \<lparr>af = raising, numLayers = 2, signal = [[], []], weights = [[[0], [0]]]\<rparr>
   \<and> [1, 1 :: nat] \<noteq> [] \<and> shape [[1]] 1 ([1, 1] ! 0) \<and> (0 :: nat) < 1
   \<and> forwardPropagate \<lparr>af = raising, numLayers = 2, signal = [[], []], weights = [[[0], [0]]]\<rparr> [[1]]
       = Some \<lparr>af = raising, numLayers = 2, signal = [[[1]], [[1 / 2]]], weights = [[[0], [0]]]\<rparr>"
proof -
  let ?net = "\<lparr>af = raising, numLayers = 2, signal = [[], []], weights = [[[0], [0 :: real]]]\<rparr>"
  have h1: "wfNet [1, 1] ?net" by (simp add: wfNet_def shape_def)
  have h2: "[1, 1 :: nat] \<noteq> []" by simp
  have h3: "shape [[1]] 1 ([1, 1] ! 0)" by (simp add: shape_def)
  have h4: "(0 :: nat) < 1" by simp
  from forwardPropagate_layers [OF h1 h2 h3 h4] obtain net' where
    fp: "forwardPropagate ?net [[1]] = Some net'"
    and w: "weights net' = weights ?net" "numLayers net' = numLayers ?net"
    and l: "length (signal net') = length [1, 1 :: nat]"
    and s0: "signal net' ! 0 = [[1]]"
    and s1: "Some (signal net' ! (0 + 1)) = specLayer (signal net' ! 0) (weights ?net ! 0)"
    and a: "af net' = af ?net"
    by force
  have "specLayer [[1]] [[0], [0]] = Some [[1 / 2]]"
    by (simp add: specLayer_def addBias_eq matMul_def dims_def dot_def col_def sigmoid_def)
  with s0 s1 have s1': "signal net' ! 1 = [[1 / 2]]" by simp
  have "signal net' = [[[1]], [[1 / 2]]]"
    using l s0 s1' by (intro nth_equalityI) (auto simp: less_Suc_eq numeral_2_eq_2)
  with w a have "net' = \<lparr>af = raising, numLayers = 2, signal = [[[1]], [[1 / 2]]], weights = [[[0], [0]]]\<rparr>"
    by (cases net') simp
  with fp h1 h2 h3 h4 show ?thesis by simp
qed

section \<open>Backward propagation\<close>

lemma neg_mulS: "neg a = mulS a (- 1)"
  by (simp add: neg_def mulS_def)

lemma backStep_Some:
  "backStep lr m i (net, outVec, err) = Some (net', outVec', err') \<longleftrightarrow>
     (i < length (signal net) \<and> i < length (weights net)
      \<and> (\<exists>delta w' e1.
            specDelta outVec err = Some delta
          \<and> specUpdate (weights net ! i) (signal net ! i) outVec err lr m = Some w'
          \<and> matMulTT delta w' = Some e1
          \<and> net' = net\<lparr>weights := (weights net)[i := w']\<rparr>
          \<and> outVec' = signal net ! i
          \<and> colsAt (af net) \<lparr>seqBegin = 1, seqEnd = real (dims (signal net ! i) 1)\<rparr> e1
                = Some err'))"
  by (auto simp: backStep_def specUpdate_def specDelta_def specGrad_def nth_opt_def neg_mulS
      Let_def split: bind_splits if_splits)

lemma backRounds_frame:
  "backRounds lr m i d st = Some st' \<Longrightarrow>
     signal (fst st') = signal (fst st) \<and> numLayers (fst st') = numLayers (fst st)
     \<and> length (weights (fst st')) = length (weights (fst st))
     \<and> (\<forall>k. k < i \<or> i + d \<le> k \<longrightarrow> weights (fst st') ! k = weights (fst st) ! k)"
proof (induction d arbitrary: st)
  case 0
  then show ?case by simp
next
  case (Suc d)
  then obtain st1 where
    s1: "backStep lr m (i + d) st = Some st1" and r: "backRounds lr m i d st1 = Some st'"
    by (auto split: option.splits)
  obtain net outVec err where st: "st = (net, outVec, err)" by (cases st)
  obtain net1 o1 e1 where st1: "st1 = (net1, o1, e1)" by (cases st1)
  from s1 obtain w' where n1: "net1 = net\<lparr>weights := (weights net)[i + d := w']\<rparr>"
    unfolding st st1 backStep_Some by blast
  from Suc.IH [OF r] show ?case
    by (auto simp: st st1 n1)
qed

lemma backRounds_outVec:
  "backRounds lr m i d st = Some st' \<Longrightarrow> 0 < d \<Longrightarrow> fst (snd st') = signal (fst st) ! i"
proof (induction d arbitrary: st)
  case 0
  then show ?case by simp
next
  case (Suc d)
  then obtain st1 where
    s1: "backStep lr m (i + d) st = Some st1" and r: "backRounds lr m i d st1 = Some st'"
    by (auto split: option.splits)
  obtain net outVec err where st: "st = (net, outVec, err)" by (cases st)
  obtain net1 o1 e1 where st1: "st1 = (net1, o1, e1)" by (cases st1)
  from s1 have n1: "signal net1 = signal net" "o1 = signal net ! (i + d)"
    unfolding st st1 backStep_Some by auto
  show ?case
  proof (cases d)
    case 0
    with r n1 show ?thesis by (auto simp: st st1)
  next
    case (Suc d')
    with Suc.IH [OF r] n1 show ?thesis by (simp add: st st1)
  qed
qed

lemma backRounds_split:
  "backRounds lr m i (d + e) st =
     (case backRounds lr m (i + e) d st of
        None \<Rightarrow> None
      | Some st1 \<Rightarrow> backRounds lr m i e st1)"
proof (induction d arbitrary: st)
  case 0
  show ?case by simp
next
  case (Suc d)
  have e: "i + (d + e) = i + e + d" by simp
  show ?case
    unfolding add_Suc backRounds.simps e
    by (cases "backStep lr m (i + e + d) st") (simp_all add: Suc)
qed

lemma backLoop_backRounds: "backLoop lr m k st = backRounds lr m 0 k st"
  by (induction k arbitrary: st) (simp_all split: option.splits)


lemma backPropagate_Some:
  "backPropagate net target lr = Some net' \<longleftrightarrow>
     (numLayers net \<noteq> 0 \<and> numLayers net - 1 < length (signal net)
      \<and> (\<exists>err st. subT (signal net ! (numLayers net - 1)) target = Some err
            \<and> backRounds lr (dims target 0) 0 (numLayers net - 1)
                 (net, signal net ! (numLayers net - 1), err) = Some st
            \<and> net' = fst st))"
  by (auto simp: backPropagate_def nth_opt_def backLoop_backRounds Let_def
      split: bind_splits if_splits)

lemma backPropagate_update:
  assumes "backPropagate net target lr = Some net'"
  shows "signal net' = signal net \<and> numLayers net' = numLayers net
         \<and> length (weights net') = length (weights net)
         \<and> (\<forall>i. i + 1 < numLayers net \<longrightarrow>
               (\<exists>err. propErr net target lr i = Some err
                  \<and> specUpdate (weights net ! i) (signal net ! i) (signal net ! (i + 1)) err
                       lr (dims target 0) = Some (weights net' ! i)))
         \<and> (\<forall>k. \<not> k + 1 < numLayers net \<longrightarrow> weights net' ! k = weights net ! k)"
proof -
  define m where "m = dims target 0"
  define L1 where "L1 = numLayers net - 1"
  define out0 where "out0 = signal net ! L1"
  from assms obtain err0 stF where
    L: "numLayers net \<noteq> 0" "L1 < length (signal net)"
    and e0: "subT out0 target = Some err0"
    and run: "backRounds lr m 0 L1 (net, out0, err0) = Some stF"
    and n': "net' = fst stF"
    unfolding backPropagate_Some m_def L1_def out0_def by blast
  note fr = backRounds_frame [OF run]
  have frame: "signal net' = signal net" "numLayers net' = numLayers net"
    "length (weights net') = length (weights net)"
    using fr by (simp_all add: n')
  have rest: "weights net' ! k = weights net ! k" if "\<not> k + 1 < numLayers net" for k
  proof -
    from that have "0 + L1 \<le> k" by (simp add: L1_def)
    with fr show ?thesis by (simp add: n')
  qed
  have upd: "\<exists>err. propErr net target lr i = Some err
      \<and> specUpdate (weights net ! i) (signal net ! i) (signal net ! (i + 1)) err lr m
           = Some (weights net' ! i)"
    if i: "i + 1 < numLayers net" for i
  proof -
    define d where "d = L1 - (i + 1)"
    have k: "L1 = d + Suc i" using i by (simp add: d_def L1_def)
    from run obtain st1 where
      r1: "backRounds lr m (Suc i) d (net, out0, err0) = Some st1"
      and r2: "backRounds lr m 0 (Suc i) st1 = Some stF"
      unfolding k backRounds_split [of lr m 0 d "Suc i"] by (auto split: option.splits)
    from r2 obtain st2 where
      s: "backStep lr m i st1 = Some st2" and r3: "backRounds lr m 0 i st2 = Some stF"
      by (auto split: option.splits)
    obtain net1 o1 e1 where st1: "st1 = (net1, o1, e1)" by (cases st1)
    obtain net2 o2 e2 where st2: "st2 = (net2, o2, e2)" by (cases st2)
    have f1: "signal net1 = signal net" "weights net1 ! i = weights net ! i"
      using backRounds_frame [OF r1] by (simp_all add: st1)
    have o1: "o1 = signal net ! (i + 1)"
    proof (cases d)
      case 0
      with r1 have "o1 = out0" by (simp add: st1)
      moreover from 0 k have "L1 = i + 1" by simp
      ultimately show ?thesis by (simp add: out0_def)
    next
      case (Suc d')
      then have "0 < d" by simp
      from backRounds_outVec [OF r1 this] show ?thesis by (simp add: st1)
    qed
    have pe: "propErr net target lr i = Some e1"
      using L e0 r1
      by (simp add: propErr_def nth_opt_def st1 d_def L1_def out0_def m_def)
    from s obtain w' where
      il: "i < length (weights net1)"
      and u: "specUpdate (weights net1 ! i) (signal net1 ! i) o1 e1 lr m = Some w'"
      and n2: "net2 = net1\<lparr>weights := (weights net1)[i := w']\<rparr>"
      unfolding st1 st2 backStep_Some by blast
    have "weights net' ! i = weights net2 ! i"
      using backRounds_frame [OF r3] by (simp add: n' st2)
    also have "\<dots> = w'" using il by (simp add: n2)
    finally show ?thesis using pe u f1 o1 by simp
  qed
  show ?thesis
    using frame rest upd unfolding m_def by blast
qed

lemma transposeT_shape:
  assumes "shape t b n" "0 < b"
  shows "shape (transposeT t) n b"
proof -
  have "dims t 1 = n" "length t = b"
    using assms shape_dims1 [of t b n] by (simp_all add: shape_def)
  then show ?thesis
    by (simp add: transposeT_def col_def shape_def list_all_iff)
qed

lemma deriv_shape:
  assumes "shape out b n"
  shows "\<exists>d. deriv out = Some d \<and> shape d b n"
proof -
  have "shape (rhsSub out 1) b n"
    using assms by (simp add: rhsSub_def shape_map_map)
  from zipT_shape [OF this assms] show ?thesis
    by (simp add: deriv_def mulT_def)
qed

lemma specDelta_shape:
  assumes "shape outVec b n" "shape err b n" "0 < b"
  shows "\<exists>delta. specDelta outVec err = Some delta \<and> shape delta n b"
proof -
  from deriv_shape [OF assms(1)] obtain d where d: "deriv outVec = Some d" "shape d b n"
    by blast
  from zipT_shape [OF d(2) assms(2)] obtain de where de: "mulT d err = Some de" "shape de b n"
    by (simp add: mulT_def)
  from transposeT_shape [OF de(2) assms(3)] d de show ?thesis
    by (simp add: specDelta_def)
qed

lemma specGrad_shape:
  assumes "shape delta n b" "shape biasedIn b k" "0 < b" "0 < n" "0 < m"
  shows "\<exists>g. specGrad delta biasedIn lr m = Some g \<and> shape g k n"
proof -
  from matMul_shape [OF assms(1,2,4,3)] obtain mm where
    mm: "matMul delta biasedIn = Some mm" "shape mm n k"
    by blast
  define g where "g = map (map (\<lambda>x. x / real m)) (mulS (mulS mm lr) (- 1))"
  have "shape g n k"
    using mm(2) by (simp add: g_def mulS_def shape_map_map)
  from transposeT_shape [OF this assms(4)] mm assms(5) show ?thesis
    by (simp add: specGrad_def divS_def g_def)
qed

lemma specUpdate_shape:
  assumes "shape w (k + 1) n" "shape s b k" "shape outVec b n" "shape err b n"
    and "0 < b" "0 < n" "0 < m"
  shows "\<exists>w'. specUpdate w s outVec err lr m = Some w' \<and> shape w' (k + 1) n"
proof -
  from specDelta_shape [OF assms(3,4,5)] obtain delta where
    d: "specDelta outVec err = Some delta" "shape delta n b"
    by blast
  have bi: "shape (map (\<lambda>r. 1 # r) s) b (k + 1)"
    using addBias_shape [OF assms(2)] by simp
  from specGrad_shape [OF d(2) bi assms(5,6,7)] obtain g where
    g: "specGrad delta (map (\<lambda>r. 1 # r) s) lr m = Some g" "shape g (k + 1) n"
    by blast
  from zipT_shape [OF assms(1) g(2)] d g show ?thesis
    by (simp add: specUpdate_def addBias_eq addAssign_def)
qed

lemma matMulTT_shape:
  assumes "shape delta n b" "shape w k n" "0 < b" "0 < n" "0 < k"
  shows "\<exists>e. matMulTT delta w = Some e \<and> shape e b k"
  unfolding matMulTT_def
  using matMul_shape [OF transposeT_shape [OF assms(1,4)] transposeT_shape [OF assms(2,5)]
      assms(3,4)] .

text \<open>
  C2, as amended: in every round \<open>i\<close> of the loop of \<open>backPropagate\<close>, on tensors of the
  shapes of a forward pass, the error handed to the earlier layer is
  \<open>matmul(transpose(delta), transpose(Weight[i]))\<close> (the library's \<open>matMulTT\<close>) with the
  value of \<open>Weight[i]\<close> after the gradient update of the same round; then column 0 is
  dropped and exactly the columns \<open>1..layerSize[i]\<close> are kept, so the propagated error has
  the shape of \<open>Signal[i]\<close>, which becomes the next \<open>outVec\<close>.
\<close>

theorem backStep_propagated_error:
  assumes step: "backStep lr m i (net, outVec, err) = Some (net', outVec', err')"
    and sh: "shape (signal net ! i) b n0" "shape (weights net ! i) (n0 + 1) n1"
      "shape outVec b n1" "shape err b n1"
    and pos: "0 < b" "0 < n1"
  shows "\<exists>delta e. specDelta outVec err = Some delta
           \<and> specUpdate (weights net ! i) (signal net ! i) outVec err lr m = Some (weights net' ! i)
           \<and> matMul (transposeT delta) (transposeT (weights net' ! i)) = Some e
           \<and> shape e b (n0 + 1)
           \<and> err' = map tl e
           \<and> (\<forall>r<b. \<forall>c<n0. err' ! r ! c = e ! r ! (c + 1))
           \<and> shape err' b n0
           \<and> outVec' = signal net ! i"
proof -
  from step obtain delta w' e where
    il: "i < length (weights net)"
    and d: "specDelta outVec err = Some delta"
    and u: "specUpdate (weights net ! i) (signal net ! i) outVec err lr m = Some w'"
    and e: "matMulTT delta w' = Some e"
    and n': "net' = net\<lparr>weights := (weights net)[i := w']\<rparr>"
    and o': "outVec' = signal net ! i"
    and e': "colsAt (af net) \<lparr>seqBegin = 1, seqEnd = real (dims (signal net ! i) 1)\<rparr> e
               = Some err'"
    unfolding backStep_Some by blast
  have w': "weights net' ! i = w'" using il by (simp add: n')
  have m: "0 < m"
  proof (rule ccontr)
    assume "\<not> 0 < m"
    then have "m = 0" by simp
    with u show False
      by (simp add: specUpdate_def specGrad_def divS_def split: bind_splits)
  qed
  from specDelta_shape [OF sh(3,4) pos(1)] d have ds: "shape delta n1 b" by simp
  from specUpdate_shape [OF sh(2,1,3,4) pos m, of lr] u have ws: "shape w' (n0 + 1) n1" by simp
  from matMulTT_shape [OF ds ws pos] e have es: "shape e b (n0 + 1)" by simp
  have "dims (signal net ! i) 1 = n0"
    using shape_dims1 [OF sh(1) pos(1)] .
  with e' dropCol0(1) [OF es, of "af net"] dropCol0(2) [OF es]
  have tl: "err' = map tl e" "shape err' b n0" by simp_all
  have ent: "err' ! r ! c = e ! r ! (c + 1)" if "r < b" "c < n0" for r c
  proof -
    have "length e = b" "length (e ! r) = n0 + 1"
      using es that by (simp_all add: shape_def list_all_length)
    with that show ?thesis by (simp add: tl(1) nth_tl)
  qed
  show ?thesis
    using d u e es tl ent o' unfolding w' matMulTT_def by blast
qed

theorem backStep_propagated_error_witness:
  "backStep 1 1 0 (\<lparr>af = raising, numLayers = 2, signal = [[[1]], [[1 / 2, 1 / 2]]], weights = [[[0, 0], [0, 0]]]\<rparr>,
       [[1 / 2, 1 / 2]], [[1, 1]])
     = Some (\<lparr>af = raising, numLayers = 2, signal = [[[1]], [[1 / 2, 1 / 2]]],
               weights = [[[- (1 / 4), - (1 / 4)], [- (1 / 4), - (1 / 4)]]]\<rparr>, [[1]], [[- (1 / 8)]])
   \<and> shape [[1]] 1 1 \<and> shape [[0, 0], [0, 0]] (1 + 1) 2
   \<and> shape [[1 / 2, 1 / 2]] 1 2 \<and> shape [[1, 1]] 1 2 \<and> (0 :: nat) < 1 \<and> (0 :: nat) < 2
   \<and> (\<exists>delta e. specDelta [[1 / 2, 1 / 2]] [[1, 1]] = Some delta
          \<and> matMul (transposeT delta)
               (transposeT [[- (1 / 4), - (1 / 4)], [- (1 / 4), - (1 / 4)]]) = Some e
          \<and> shape e 1 (1 + 1)
          \<and> [[- (1 / 8)]] = map tl e)"
proof -
  define net :: ann where
    "net = \<lparr>af = raising, numLayers = 2, signal = [[[1]], [[1 / 2, 1 / 2]]], weights = [[[0, 0], [0, 0]]]\<rparr>"
  define net' :: ann where
    "net' = \<lparr>af = raising, numLayers = 2, signal = [[[1]], [[1 / 2, 1 / 2]]],
       weights = [[[- (1 / 4), - (1 / 4)], [- (1 / 4), - (1 / 4)]]]\<rparr>"
  have st: "backStep 1 1 0 (net, [[1 / 2, 1 / 2]], [[1, 1]]) = Some (net', [[1]], [[- (1 / 8)]])"
    unfolding net_def net'_def
    by (simp add: backStep_def nth_opt_def mulT_def zipT_def sameDims_def
     dims_def addBias_eq deriv_def rhsSub_def transposeT_def col_def matMul_def dot_def divS_def
     neg_def mulS_def addAssign_def matMulTT_def colsAt_def slice_def inRange_def numeral_2_eq_2)
  have h1: "shape (signal net ! 0) 1 1" and h2: "shape (weights net ! 0) (1 + 1) 2"
    and h3: "shape [[1 / 2, 1 / 2]] 1 2" and h4: "shape [[1, 1]] 1 2"
    and h5: "(0 :: nat) < 1" and h6: "(0 :: nat) < 2"
    by (simp_all add: shape_def net_def)
  have w: "weights net' ! 0 = [[- (1 / 4), - (1 / 4)], [- (1 / 4), - (1 / 4)]]"
    by (simp add: net'_def)
  from backStep_propagated_error [OF st h1 h2 h3 h4 h5 h6] obtain delta e where
    f1: "specDelta [[1 / 2, 1 / 2]] [[1, 1]] = Some delta"
    and f2: "matMul (transposeT delta) (transposeT (weights net' ! 0)) = Some e"
    and f3: "shape e 1 (1 + 1)" and f4: "[[- (1 / 8)]] = map tl e"
    by (elim exE conjE)
  have ex: "\<exists>delta e. specDelta [[1 / 2, 1 / 2]] [[1, 1]] = Some delta
          \<and> matMul (transposeT delta)
               (transposeT [[- (1 / 4), - (1 / 4)], [- (1 / 4), - (1 / 4)]]) = Some e
          \<and> shape e 1 (1 + 1)
          \<and> [[- (1 / 8)]] = map tl e"
  proof (intro exI conjI)
    show "specDelta [[1 / 2, 1 / 2]] [[1, 1]] = Some delta" by (rule f1)
    show "matMul (transposeT delta)
            (transposeT [[- (1 / 4), - (1 / 4)], [- (1 / 4), - (1 / 4)]]) = Some e"
      using f2 unfolding w .
    show "shape e 1 (1 + 1)" by (rule f3)
    show "[[- (1 / 8)]] = map tl e" by (rule f4)
  qed
  have s1: "shape [[1]] 1 1" and s2: "shape [[0, 0], [0, 0]] (1 + 1) 2"
    using h1 h2 by (simp_all add: net_def)
  from st have st': "backStep 1 1 0 (\<lparr>af = raising, numLayers = 2, signal = [[[1]], [[1 / 2, 1 / 2]]],
        weights = [[[0, 0], [0, 0]]]\<rparr>, [[1 / 2, 1 / 2]], [[1, 1]])
     = Some (\<lparr>af = raising, numLayers = 2, signal = [[[1]], [[1 / 2, 1 / 2]]],
               weights = [[[- (1 / 4), - (1 / 4)], [- (1 / 4), - (1 / 4)]]]\<rparr>, [[1]], [[- (1 / 8)]])"
    unfolding net_def net'_def .
  show ?thesis
    using st' s1 s2 h3 h4 h5 h6 ex by (intro conjI)
qed

text \<open>
  C2 as stated fails: with one sample and two units in the layer, \<open>delta\<close> has shape
  \<open>(2, 1)\<close> and \<open>transpose(Weight[i])\<close> has shape \<open>(2, 2)\<close>, so the product
  \<open>matmul(delta, transpose(Weight[i]))\<close> of the claim does not exist, while the round
  returns the error \<open>[[-1/8]]\<close>.
\<close>

theorem backStep_propagated_error_counterexample:
  "backStep 1 1 0 (\<lparr>af = raising, numLayers = 2, signal = [[[1]], [[1 / 2, 1 / 2]]], weights = [[[0, 0], [0, 0]]]\<rparr>,
       [[1 / 2, 1 / 2]], [[1, 1]])
     = Some (\<lparr>af = raising, numLayers = 2, signal = [[[1]], [[1 / 2, 1 / 2]]],
               weights = [[[- (1 / 4), - (1 / 4)], [- (1 / 4), - (1 / 4)]]]\<rparr>, [[1]], [[- (1 / 8)]])
   \<and> specDelta [[1 / 2, 1 / 2]] [[1, 1]] = Some [[1 / 4], [1 / 4]]
   \<and> claimedErr [[1 / 4], [1 / 4]] [[- (1 / 4), - (1 / 4)], [- (1 / 4), - (1 / 4)]] = None
   \<and> claimedErr [[1 / 4], [1 / 4]] [[- (1 / 4), - (1 / 4)], [- (1 / 4), - (1 / 4)]]
       \<noteq> Some [[- (1 / 8)]]"
  by (simp add: backStep_def nth_opt_def mulT_def zipT_def sameDims_def
     dims_def addBias_eq deriv_def rhsSub_def transposeT_def col_def matMul_def dot_def divS_def
     neg_def mulS_def addAssign_def matMulTT_def colsAt_def slice_def inRange_def numeral_2_eq_2
     specDelta_def claimedErr_def)

lemma backStep_total:
  assumes "i < length (signal net)" "i < length (weights net)"
    and "shape (signal net ! i) b n0" "shape (weights net ! i) (n0 + 1) n1"
    and "shape outVec b n1" "shape err b n1" "0 < b" "0 < n1" "0 < m"
  shows "\<exists>w' err'. backStep lr m i (net, outVec, err)
            = Some (net\<lparr>weights := (weights net)[i := w']\<rparr>, signal net ! i, err')
          \<and> shape w' (n0 + 1) n1 \<and> shape err' b n0"
proof -
  from specDelta_shape [OF assms(5,6,7)] obtain delta where
    d: "specDelta outVec err = Some delta" "shape delta n1 b"
    by blast
  from specUpdate_shape [OF assms(4,3,5,6,7,8,9), of lr] obtain w' where
    u: "specUpdate (weights net ! i) (signal net ! i) outVec err lr m = Some w'"
      "shape w' (n0 + 1) n1"
    by blast
  from matMulTT_shape [OF d(2) u(2) assms(7,8)] obtain e where
    e: "matMulTT delta w' = Some e" "shape e b (n0 + 1)"
    by auto
  have dm: "dims (signal net ! i) 1 = n0"
    using shape_dims1 [OF assms(3,7)] .
  define err' where "err' = map tl e"
  have ce: "colsAt (af net) \<lparr>seqBegin = 1, seqEnd = real (dims (signal net ! i) 1)\<rparr> e = Some err'"
    unfolding err'_def dm by (rule dropCol0(1) [OF e(2)])
  have "shape err' b n0"
    unfolding err'_def by (rule dropCol0(2) [OF e(2)])
  moreover have "backStep lr m i (net, outVec, err)
      = Some (net\<lparr>weights := (weights net)[i := w']\<rparr>, signal net ! i, err')"
    unfolding backStep_Some using assms(1,2) d(1) u(1) e(1) ce by blast
  ultimately show ?thesis using u(2) by blast
qed

lemma backLoop_total:
  "wfNet layers net \<Longrightarrow> k < length layers \<Longrightarrow>
   (\<And>i. i < length layers \<Longrightarrow> shape (signal net ! i) b (layers ! i)) \<Longrightarrow>
   (\<And>i. 0 < i \<Longrightarrow> i < length layers \<Longrightarrow> 0 < layers ! i) \<Longrightarrow>
   shape outVec b (layers ! k) \<Longrightarrow> shape err b (layers ! k) \<Longrightarrow> 0 < b \<Longrightarrow> 0 < m \<Longrightarrow>
     \<exists>st. backLoop lr m k (net, outVec, err) = Some st"
proof (induction k arbitrary: net outVec err)
  case 0
  show ?case by simp
next
  case (Suc k)
  have wf: "length (signal net) = length layers" "length (weights net) = length layers - 1"
    "shape (weights net ! k) (layers ! k + 1) (layers ! (k + 1))"
    using Suc.prems(1,2) by (simp_all add: wfNet_def)
  have il: "k < length (signal net)" "k < length (weights net)"
    using wf Suc.prems(2) by simp_all
  have sk: "shape (signal net ! k) b (layers ! k)"
    using Suc.prems(3) [of k] Suc.prems(2) by simp
  have n1: "0 < layers ! (k + 1)"
    using Suc.prems(4) [of "k + 1"] Suc.prems(2) by simp
  from backStep_total [OF il sk wf(3) _ _ Suc.prems(7) n1 Suc.prems(8), of outVec err lr]
    Suc.prems(5,6)
  obtain w' err' where
    st: "backStep lr m k (net, outVec, err)
            = Some (net\<lparr>weights := (weights net)[k := w']\<rparr>, signal net ! k, err')"
    and sw: "shape w' (layers ! k + 1) (layers ! (k + 1))" and se: "shape err' b (layers ! k)"
    by auto
  let ?net' = "net\<lparr>weights := (weights net)[k := w']\<rparr>"
  have wf': "wfNet layers ?net'"
    unfolding wfNet_def
  proof (intro conjI allI impI)
    fix i assume i: "i + 1 < length layers"
    show "shape (weights ?net' ! i) (layers ! i + 1) (layers ! (i + 1))"
    proof (cases "i = k")
      case True
      with sw il show ?thesis by simp
    next
      case False
      with Suc.prems(1) i show ?thesis by (simp add: wfNet_def)
    qed
  qed (use Suc.prems(1) in \<open>simp_all add: wfNet_def\<close>)
  have sg: "\<And>i. i < length layers \<Longrightarrow> shape (signal ?net' ! i) b (layers ! i)"
    using Suc.prems(3) by simp
  from Suc.IH [OF wf' _ sg Suc.prems(4) _ se Suc.prems(7,8), of "signal net ! k"] sk Suc.prems(2)
  obtain stF where "backLoop lr m k (?net', signal net ! k, err') = Some stF"
    by auto
  with st have "backLoop lr m (Suc k) (net, outVec, err) = Some stF" by simp
  then show ?case ..
qed

lemma backPropagate_total:
  assumes "wfNet layers net" "layers \<noteq> []"
    and "list_all2 (\<lambda>s n. shape s b n) (signal net) layers"
    and "list_all (\<lambda>n. 0 < n) (tl layers)"
    and "shape target b (last layers)" "0 < b"
  shows "\<exists>net'. backPropagate net target lr = Some net'"
proof -
  let ?L = "length layers"
  have L: "0 < ?L" using assms(2) by simp
  have nl: "numLayers net = ?L" "length (signal net) = ?L"
    using assms(1) by (simp_all add: wfNet_def)
  have sg: "shape (signal net ! i) b (layers ! i)" if "i < ?L" for i
    using assms(3) that by (simp add: list_all2_conv_all_nth)
  have ps: "0 < layers ! i" if "0 < i" "i < ?L" for i
  proof -
    from that obtain j where j: "i = Suc j" by (cases i) simp_all
    with that have "j < length (tl layers)" by simp
    then have "0 < tl layers ! j" using assms(4) by (simp add: list_all_length)
    then show ?thesis using j that by (simp add: nth_tl)
  qed
  have lst: "last layers = layers ! (?L - 1)" using assms(2) by (rule last_conv_nth)
  have so: "shape (signal net ! (?L - 1)) b (layers ! (?L - 1))" using sg L by simp
  from zipT_shape [OF so] assms(5) lst obtain err where
    e: "subT (signal net ! (?L - 1)) target = Some err" "shape err b (layers ! (?L - 1))"
    by (simp add: subT_def)
  have m: "0 < dims target 0" using shape_dims0 [OF assms(5)] assms(6) by simp
  from backLoop_total [OF assms(1) _ sg ps so e(2) assms(6) m, of lr] L
  obtain st where "backLoop lr (dims target 0) (?L - 1) (net, signal net ! (?L - 1), err) = Some st"
    by auto
  then show ?thesis
    using L nl e(1) by (simp add: backPropagate_def nth_opt_def)
qed

text \<open>
  C1: on a network whose signal buffers hold the result of a forward pass,
  \<open>backPropagate(target, alpha)\<close> returns; and whenever it returns, every layer index \<open>i\<close>
  from \<open>L - 2\<close> down to 0 has had \<open>Weight[i]\<close> replaced by \<open>Weight[i] +
  transpose(matmul(delta, addBias(Signal[i])) * alpha * -1 / m)\<close>, where \<open>delta =
  transpose(deriv(outVec) * err)\<close>, \<open>outVec\<close> is \<open>Signal[i+1]\<close> (the output of the layer
  being updated), \<open>err\<close> is the error propagated to that layer and \<open>m\<close> is the row count
  of \<open>target\<close>. Each such weight is the old one plus this one gradient; the signals, the
  number of weights and every other entry of the weight list are unchanged.
\<close>

theorem backPropagate_weight_update:
  "(\<forall>net'. backPropagate net target lr = Some net' \<longrightarrow>
       signal net' = signal net \<and> numLayers net' = numLayers net
       \<and> length (weights net') = length (weights net)
       \<and> (\<forall>i. i + 1 < numLayers net \<longrightarrow>
             (\<exists>err. propErr net target lr i = Some err
                \<and> specUpdate (weights net ! i) (signal net ! i) (signal net ! (i + 1)) err
                     lr (dims target 0) = Some (weights net' ! i)))
       \<and> (\<forall>k. \<not> k + 1 < numLayers net \<longrightarrow> weights net' ! k = weights net ! k))
   \<and> (wfNet layers net \<and> layers \<noteq> []
        \<and> list_all2 (\<lambda>s n. shape s b n) (signal net) layers
        \<and> list_all (\<lambda>n. 0 < n) (tl layers)
        \<and> shape target b (last layers) \<and> 0 < b
      \<longrightarrow> (\<exists>net'. backPropagate net target lr = Some net'))"
proof (rule conjI)
  show "\<forall>net'. backPropagate net target lr = Some net' \<longrightarrow>
       signal net' = signal net \<and> numLayers net' = numLayers net
       \<and> length (weights net') = length (weights net)
       \<and> (\<forall>i. i + 1 < numLayers net \<longrightarrow>
             (\<exists>err. propErr net target lr i = Some err
                \<and> specUpdate (weights net ! i) (signal net ! i) (signal net ! (i + 1)) err
                     lr (dims target 0) = Some (weights net' ! i)))
       \<and> (\<forall>k. \<not> k + 1 < numLayers net \<longrightarrow> weights net' ! k = weights net ! k)"
    using backPropagate_update [of net target lr] by (intro allI impI)
next
  show "wfNet layers net \<and> layers \<noteq> []
        \<and> list_all2 (\<lambda>s n. shape s b n) (signal net) layers
        \<and> list_all (\<lambda>n. 0 < n) (tl layers)
        \<and> shape target b (last layers) \<and> 0 < b
      \<longrightarrow> (\<exists>net'. backPropagate net target lr = Some net')"
  proof
    assume "wfNet layers net \<and> layers \<noteq> []
        \<and> list_all2 (\<lambda>s n. shape s b n) (signal net) layers
        \<and> list_all (\<lambda>n. 0 < n) (tl layers)
        \<and> shape target b (last layers) \<and> 0 < b"
    then show "\<exists>net'. backPropagate net target lr = Some net'"
      by (elim conjE) (rule backPropagate_total)
  qed
qed

theorem backPropagate_weight_update_witness:
  "backPropagate \<lparr>af = raising, numLayers = 3, signal = [[[1]], [[1 / 2, 1 / 2]], [[1 / 2]]],
       weights = [[[0, 0], [0, 0]], [[1], [1], [1]]]\<rparr> [[1]] 1
     = Some \<lparr>af = raising, numLayers = 3, signal = [[[1]], [[1 / 2, 1 / 2]], [[1 / 2]]],
         weights = [[[17 / 512, 17 / 512], [17 / 512, 17 / 512]], [[9 / 8], [17 / 16], [17 / 16]]]\<rparr>
   \<and> wfNet [1, 2, 1] \<lparr>af = raising, numLayers = 3, signal = [[[1]], [[1 / 2, 1 / 2]], [[1 / 2]]],
       weights = [[[0, 0], [0, 0]], [[1], [1], [1]]]\<rparr>
   \<and> [1, 2, 1 :: nat] \<noteq> []
   \<and> list_all2 (\<lambda>s n. shape s 1 n) [[[1]], [[1 / 2, 1 / 2]], [[1 / 2]]] [1, 2, 1]
   \<and> list_all (\<lambda>n. 0 < n) (tl [1, 2, 1 :: nat])
   \<and> shape [[1]] 1 (last [1, 2, 1]) \<and> (0 :: nat) < 1
   \<and> (\<exists>err. propErr \<lparr>af = raising, numLayers = 3, signal = [[[1]], [[1 / 2, 1 / 2]], [[1 / 2]]],
                 weights = [[[0, 0], [0, 0]], [[1], [1], [1]]]\<rparr> [[1]] 1 0 = Some err
          \<and> specUpdate [[0, 0], [0, 0]] [[1]] [[1 / 2, 1 / 2]] err 1 1
               = Some [[17 / 512, 17 / 512], [17 / 512, 17 / 512]])"
proof -
  define net :: ann where "net = \<lparr>af = raising, numLayers = 3, signal = [[[1]], [[1 / 2, 1 / 2]], [[1 / 2]]],
       weights = [[[0, 0], [0, 0]], [[1], [1], [1]]]\<rparr>"
  define net' :: ann where "net' = \<lparr>af = raising, numLayers = 3, signal = [[[1]], [[1 / 2, 1 / 2]], [[1 / 2]]],
         weights = [[[17 / 512, 17 / 512], [17 / 512, 17 / 512]], [[9 / 8], [17 / 16], [17 / 16]]]\<rparr>"
  have bp: "backPropagate net [[1]] 1 = Some net'"
    unfolding net_def net'_def
    by (simp add: backPropagate_def backStep_def nth_opt_def subT_def mulT_def zipT_def sameDims_def
     dims_def addBias_eq deriv_def rhsSub_def transposeT_def col_def matMul_def dot_def divS_def
     neg_def mulS_def addAssign_def matMulTT_def colsAt_def slice_def inRange_def numeral_2_eq_2 numeral_3_eq_3)
  have h1: "wfNet [1, 2, 1] net"
    by (auto simp: wfNet_def net_def shape_def less_Suc_eq numeral_2_eq_2 numeral_3_eq_3)
  have h2: "[1, 2, 1 :: nat] \<noteq> []" by simp
  have h3: "list_all2 (\<lambda>s n. shape s 1 n) [[[1]], [[1 / 2, 1 / 2]], [[1 / 2 :: real]]] [1, 2, 1]"
    by (simp add: shape_def)
  have h4: "list_all (\<lambda>n. 0 < n) (tl [1, 2, 1 :: nat])" by simp
  have h5: "shape [[1]] 1 (last [1, 2, 1])" by (simp add: shape_def)
  have h6: "(0 :: nat) < 1" by simp
  note t = backPropagate_weight_update [of net "[[1]]" 1 "[1, 2, 1]" 1]
  note c = t [THEN conjunct1, rule_format, OF bp]
  have i0: "(0 :: nat) + 1 < numLayers net" by (simp add: net_def)
  from c have "\<forall>i. i + 1 < numLayers net \<longrightarrow>
      (\<exists>err. propErr net [[1]] 1 i = Some err
         \<and> specUpdate (weights net ! i) (signal net ! i) (signal net ! (i + 1)) err
              1 (dims [[1]] 0) = Some (weights net' ! i))"
    by (elim conjE)
  from this [rule_format, OF i0]
  have "\<exists>err. propErr net [[1]] 1 0 = Some err
       \<and> specUpdate [[0, 0], [0, 0]] [[1]] [[1 / 2, 1 / 2]] err 1 1
            = Some [[17 / 512, 17 / 512], [17 / 512, 17 / 512]]"
    by (simp add: dims_def net_def net'_def)
  with bp h1 h2 h3 h4 h5 h6 show ?thesis
    unfolding net_def net'_def by (intro conjI)
qed

section \<open>Rounding to doubles\<close>

lemma pow2_powr: "pow2 e = 2 powr (of_int e)"
proof (cases "0 \<le> e")
  case True
  then have "(2 :: real) powr (of_int e) = 2 powr (real (nat e))" by simp
  also have "\<dots> = 2 ^ nat e" by (rule powr_realpow) simp
  finally show ?thesis using True by (simp add: pow2_def)
next
  case False
  then have "(2 :: real) powr (of_int e) = 2 powr (- real (nat (- e)))" by simp
  also have "\<dots> = 1 / 2 powr (real (nat (- e)))" by (simp add: powr_minus_divide)
  also have "2 powr (real (nat (- e))) = (2 :: real) ^ nat (- e)" by (rule powr_realpow) simp
  finally show ?thesis using False by (simp add: pow2_def)
qed

lemma pow2_pos: "0 < pow2 e"
  by (simp add: pow2_powr)

lemma pow2_add: "pow2 (a + b) = pow2 a * pow2 b"
  by (simp add: pow2_powr powr_add)

lemma pow2_le: "pow2 a \<le> pow2 b \<longleftrightarrow> a \<le> b"
  by (simp add: pow2_powr)

lemma pow2_less: "pow2 a < pow2 b \<longleftrightarrow> a < b"
  by (simp add: pow2_powr)

lemma pow2_0: "pow2 0 = 1"
  by (simp add: pow2_def)

lemma expUp_bracket:
  "pow2 e \<le> x \<Longrightarrow>
     pow2 (expUp k x e) \<le> x \<and> (x < pow2 (expUp k x e + 1) \<or> expUp k x e = e + int k)
     \<and> e \<le> expUp k x e \<and> expUp k x e \<le> e + int k"
proof (induction k arbitrary: e)
  case 0
  then show ?case by simp
next
  case (Suc k)
  show ?case
  proof (cases "pow2 (e + 1) \<le> x")
    case True
    from Suc.IH [OF True] True show ?thesis by auto
  next
    case False
    with Suc.prems show ?thesis by simp
  qed
qed

lemma expDown_bracket:
  "x < pow2 (e + 1) \<Longrightarrow>
     x < pow2 (expDown k x e + 1) \<and> (pow2 (expDown k x e) \<le> x \<or> expDown k x e = e - int k)
     \<and> e - int k \<le> expDown k x e \<and> expDown k x e \<le> e"
proof (induction k arbitrary: e)
  case 0
  then show ?case by simp
next
  case (Suc k)
  show ?case
  proof (cases "x < pow2 e")
    case True
    then have "x < pow2 (e - 1 + 1)" by simp
    from Suc.IH [OF this] True show ?thesis by auto
  next
    case False
    with Suc.prems show ?thesis by simp
  qed
qed

lemma exponent_range: "- 1022 \<le> exponent x" "exponent x \<le> 1023"
proof -
  have u: "pow2 0 \<le> \<bar>x\<bar>" if "1 \<le> \<bar>x\<bar>" using that by (simp add: pow2_0)
  have d: "\<bar>x\<bar> < pow2 (- 1 + 1)" if "\<not> 1 \<le> \<bar>x\<bar>" using that by (simp add: pow2_0)
  show "- 1022 \<le> exponent x"
    using expUp_bracket [OF u, of 1023] expDown_bracket [OF d, of 1021]
    by (cases "1 \<le> \<bar>x\<bar>") (simp_all add: exponent_def)
  show "exponent x \<le> 1023"
    using expUp_bracket [OF u, of 1023] expDown_bracket [OF d, of 1021]
    by (cases "1 \<le> \<bar>x\<bar>") (simp_all add: exponent_def)
qed

lemma exponent_lower: "pow2 (- 1022) \<le> \<bar>x\<bar> \<Longrightarrow> pow2 (exponent x) \<le> \<bar>x\<bar>"
proof (cases "1 \<le> \<bar>x\<bar>")
  case True
  then have "pow2 0 \<le> \<bar>x\<bar>" by (simp add: pow2_0)
  from expUp_bracket [OF this, of 1023] True show ?thesis by (simp add: exponent_def)
next
  case False
  assume a: "pow2 (- 1022) \<le> \<bar>x\<bar>"
  from False have "\<bar>x\<bar> < pow2 (- 1 + 1)" by (simp add: pow2_0)
  from expDown_bracket [OF this, of 1021] a False show ?thesis
    by (auto simp: exponent_def)
qed



lemma exponent_sub: "\<bar>x\<bar> < pow2 (- 1022) \<Longrightarrow> exponent x = - 1022"
proof -
  assume a: "\<bar>x\<bar> < pow2 (- 1022)"
  have "pow2 (- 1022) \<le> pow2 0" by (simp add: pow2_le)
  with a have n: "\<not> 1 \<le> \<bar>x\<bar>" by (simp add: pow2_0)
  then have "\<bar>x\<bar> < pow2 (- 1 + 1)" by (simp add: pow2_0)
  note b = expDown_bracket [OF this, of 1021]
  have "\<not> pow2 (expDown 1021 \<bar>x\<bar> (- 1)) \<le> \<bar>x\<bar>"
  proof
    assume "pow2 (expDown 1021 \<bar>x\<bar> (- 1)) \<le> \<bar>x\<bar>"
    moreover have "pow2 (- 1022) \<le> pow2 (expDown 1021 \<bar>x\<bar> (- 1))"
      using b by (simp add: pow2_le)
    ultimately show False using a by linarith
  qed
  with b n show ?thesis by (simp add: exponent_def)
qed

lemma roundEven_int: "roundEven (of_int k) = k"
  by (simp add: roundEven_def)

lemma roundEven_floor:
  "roundEven y = \<lfloor>y\<rfloor> \<and> y - of_int \<lfloor>y\<rfloor> \<le> 1 / 2
   \<or> roundEven y = \<lfloor>y\<rfloor> + 1 \<and> 1 / 2 \<le> y - of_int \<lfloor>y\<rfloor>"
proof (cases "y - of_int \<lfloor>y\<rfloor> < 1 / 2")
  case True
  then show ?thesis by (simp add: roundEven_def Let_def)
next
  case False
  show ?thesis
  proof (cases "1 / 2 < y - of_int \<lfloor>y\<rfloor>")
    case True
    with False show ?thesis by (simp add: roundEven_def Let_def)
  next
    case F: False
    with False have h: "y - of_int \<lfloor>y\<rfloor> = 1 / 2" by simp
    then show ?thesis by (cases "even \<lfloor>y\<rfloor>") (simp_all add: roundEven_def Let_def)
  qed
qed

lemma roundEven_between: "\<lfloor>y\<rfloor> \<le> roundEven y" "roundEven y \<le> \<lfloor>y\<rfloor> + 1"
  using roundEven_floor [of y] by auto

lemma roundEven_mono: "x \<le> y \<Longrightarrow> roundEven x \<le> roundEven y"
proof -
  assume xy: "x \<le> y"
  have fl: "\<lfloor>x\<rfloor> \<le> \<lfloor>y\<rfloor>" using xy by (rule floor_mono)
  show ?thesis
  proof (cases "\<lfloor>x\<rfloor> = \<lfloor>y\<rfloor>")
    case True
    show ?thesis
    proof (cases "roundEven x = \<lfloor>x\<rfloor>")
      case T: True
      with roundEven_between(1) [of y] True show ?thesis by simp
    next
      case False
      with roundEven_floor [of x] have x1: "roundEven x = \<lfloor>x\<rfloor> + 1"
        and x2: "1 / 2 \<le> x - of_int \<lfloor>x\<rfloor>"
        by auto
      have "roundEven y = \<lfloor>y\<rfloor> + 1"
      proof (cases "1 / 2 < y - of_int \<lfloor>y\<rfloor>")
        case T: True
        then show ?thesis by (simp add: roundEven_def Let_def)
      next
        case F: False
        with x2 xy True have h: "y - of_int \<lfloor>y\<rfloor> = 1 / 2" "x - of_int \<lfloor>x\<rfloor> = 1 / 2"
          by simp_all
        then have "roundEven x = (if even \<lfloor>x\<rfloor> then \<lfloor>x\<rfloor> else \<lfloor>x\<rfloor> + 1)"
          "roundEven y = (if even \<lfloor>y\<rfloor> then \<lfloor>y\<rfloor> else \<lfloor>y\<rfloor> + 1)"
          by (simp_all add: roundEven_def Let_def)
        with x1 True show ?thesis by (simp split: if_splits)
      qed
      with x1 True show ?thesis by simp
    qed
  next
    case False
    with fl have "\<lfloor>x\<rfloor> + 1 \<le> \<lfloor>y\<rfloor>" by simp
    with roundEven_between(2) [of x] roundEven_between(1) [of y] show ?thesis by linarith
  qed
qed

lemma floor_minus_frac: "y \<noteq> of_int \<lfloor>y\<rfloor> \<Longrightarrow> \<lfloor>- y\<rfloor> = - \<lfloor>y\<rfloor> - 1" for y :: real
proof -
  assume n: "y \<noteq> of_int \<lfloor>y\<rfloor>"
  have "of_int \<lfloor>y\<rfloor> \<le> y" "y < of_int \<lfloor>y\<rfloor> + 1" by linarith+
  with n have "of_int \<lfloor>y\<rfloor> < y" by linarith
  then have "- real_of_int \<lfloor>y\<rfloor> - 1 \<le> - y" "- y < - real_of_int \<lfloor>y\<rfloor>"
    using \<open>y < of_int \<lfloor>y\<rfloor> + 1\<close> by linarith+
  then show ?thesis by (simp add: floor_eq_iff)
qed

lemma roundEven_minus: "roundEven (- y) = - roundEven y"
proof (cases "y = of_int \<lfloor>y\<rfloor>")
  case True
  then have "- y = of_int (- \<lfloor>y\<rfloor>)" by simp
  then have "roundEven (- y) = - \<lfloor>y\<rfloor>" by (simp only: roundEven_int)
  moreover have "roundEven y = \<lfloor>y\<rfloor>" using True roundEven_int [of "\<lfloor>y\<rfloor>"] by simp
  ultimately show ?thesis by simp
next
  case False
  note f = floor_minus_frac [OF False]
  have d: "- y - of_int (- \<lfloor>y\<rfloor> - 1) = 1 - (y - of_int \<lfloor>y\<rfloor>)" by simp
  show ?thesis
  proof (cases "y - of_int \<lfloor>y\<rfloor> < 1 / 2")
    case True
    then have "roundEven y = \<lfloor>y\<rfloor>" by (simp add: roundEven_def Let_def)
    moreover from True have "roundEven (- y) = - \<lfloor>y\<rfloor> - 1 + 1"
      unfolding roundEven_def Let_def f d by simp
    ultimately show ?thesis by simp
  next
    case F1: False
    show ?thesis
    proof (cases "1 / 2 < y - of_int \<lfloor>y\<rfloor>")
      case True
      then have "roundEven y = \<lfloor>y\<rfloor> + 1" by (simp add: roundEven_def Let_def)
      moreover from True have "roundEven (- y) = - \<lfloor>y\<rfloor> - 1"
        unfolding roundEven_def Let_def f d by simp
      ultimately show ?thesis by simp
    next
      case False
      with F1 have h: "y - of_int \<lfloor>y\<rfloor> = 1 / 2" by simp
      then have "roundEven y = (if even \<lfloor>y\<rfloor> then \<lfloor>y\<rfloor> else \<lfloor>y\<rfloor> + 1)"
        by (simp add: roundEven_def Let_def)
      moreover have "roundEven (- y) = (if even (- \<lfloor>y\<rfloor> - 1) then - \<lfloor>y\<rfloor> - 1 else - \<lfloor>y\<rfloor> - 1 + 1)"
        unfolding roundEven_def Let_def f d h by simp
      ultimately show ?thesis by simp
    qed
  qed
qed

lemma exponent_lower': "- 1022 < exponent x \<Longrightarrow> pow2 (exponent x) \<le> \<bar>x\<bar>"
proof (cases "1 \<le> \<bar>x\<bar>")
  case True
  then have "pow2 0 \<le> \<bar>x\<bar>" by (simp add: pow2_0)
  from expUp_bracket [OF this, of 1023] True show ?thesis by (simp add: exponent_def)
next
  case False
  assume a: "- 1022 < exponent x"
  from False have "\<bar>x\<bar> < pow2 (- 1 + 1)" by (simp add: pow2_0)
  from expDown_bracket [OF this, of 1021] a False show ?thesis
    by (auto simp: exponent_def)
qed

lemma exponent_upper': "exponent x < 1023 \<Longrightarrow> \<bar>x\<bar> < pow2 (exponent x + 1)"
proof (cases "1 \<le> \<bar>x\<bar>")
  case True
  assume a: "exponent x < 1023"
  from True have "pow2 0 \<le> \<bar>x\<bar>" by (simp add: pow2_0)
  from expUp_bracket [OF this, of 1023] a True show ?thesis
    by (auto simp: exponent_def)
next
  case False
  then have "\<bar>x\<bar> < pow2 (- 1 + 1)" by (simp add: pow2_0)
  from expDown_bracket [OF this, of 1021] False show ?thesis by (simp add: exponent_def)
qed

lemma exponent_minus: "exponent (- x) = exponent x"
  by (simp add: exponent_def)

lemma toDouble_minus: "toDouble (- x) = - toDouble x"
  by (simp add: toDouble_def Let_def exponent_minus roundEven_minus)

lemma toDouble_0: "toDouble 0 = 0"
  using roundEven_int [of 0] by (simp add: toDouble_def Let_def)

lemma toDouble_exact:
  assumes "\<bar>m\<bar> < 2 ^ 53" "- 1074 \<le> p" "\<bar>of_int m * pow2 p\<bar> < pow2 1024"
  shows "toDouble (of_int m * pow2 p) = of_int m * pow2 p"
proof -
  define x where "x = of_int m * pow2 p"
  define e where "e = exponent x"
  define d where "d = p - (e - 52)"
  have "\<bar>m\<bar> + 1 \<le> 2 ^ 53" using assms(1) by simp
  then have "real_of_int (\<bar>m\<bar> + 1) \<le> real_of_int (2 ^ 53)" by (simp only: of_int_le_iff)
  then have m: "\<bar>real_of_int m\<bar> < pow2 53" by (simp add: pow2_def)
  have "\<bar>x\<bar> = \<bar>real_of_int m\<bar> * pow2 p"
    using pow2_pos [of p] by (simp add: x_def abs_mult)
  also have "\<dots> < pow2 53 * pow2 p"
    using m pow2_pos [of p] by (simp only: mult_strict_right_mono)
  finally have ub: "\<bar>x\<bar> < pow2 (p + 53)" by (simp add: pow2_add mult.commute)
  have d0: "0 \<le> d"
  proof (cases "\<bar>x\<bar> < pow2 (- 1022)")
    case True
    then have "e = - 1022" unfolding e_def by (rule exponent_sub)
    with assms(2) show ?thesis by (simp add: d_def)
  next
    case False
    then have "pow2 (- 1022) \<le> \<bar>x\<bar>" by simp
    then have "pow2 e \<le> \<bar>x\<bar>" unfolding e_def by (rule exponent_lower)
    with ub have "pow2 e < pow2 (p + 53)" by linarith
    then have "e < p + 53" by (simp only: pow2_less)
    then show ?thesis by (simp add: d_def)
  qed
  have "pow2 p = pow2 (d + (e - 52))" by (simp add: d_def)
  then have pp: "pow2 p = pow2 d * pow2 (e - 52)" by (simp only: pow2_add)
  have "x / pow2 (e - 52) = of_int m * pow2 d"
    using pow2_pos [of "e - 52"] by (simp add: x_def pp)
  also have "\<dots> = of_int (m * 2 ^ nat d)"
    using d0 by (simp add: pow2_def)
  finally have "roundEven (x / pow2 (e - 52)) = m * 2 ^ nat d"
    by (simp only: roundEven_int)
  then have "toDouble x = of_int (m * 2 ^ nat d) * pow2 (e - 52)"
    by (simp add: toDouble_def Let_def e_def)
  also have "\<dots> = of_int m * (pow2 d * pow2 (e - 52))"
    using d0 by (simp add: pow2_def)
  also have "\<dots> = x" by (simp add: x_def pp)
  finally show ?thesis by (simp add: x_def)
qed

lemma toDouble_int:
  assumes "\<bar>k\<bar> < 2 ^ 53"
  shows "toDouble (of_int k) = of_int k"
proof -
  have "\<bar>k\<bar> + 1 \<le> 2 ^ 53" using assms by simp
  then have "real_of_int (\<bar>k\<bar> + 1) \<le> real_of_int (2 ^ 53)" by (simp only: of_int_le_iff)
  then have "\<bar>real_of_int k\<bar> < 2 ^ 53" by simp
  also have "(2 :: real) ^ 53 \<le> 2 ^ 1024" by (rule power_increasing) simp_all
  finally have "\<bar>of_int k * pow2 0\<bar> < pow2 1024" by (simp add: pow2_def)
  from toDouble_exact [OF assms _ this] show ?thesis by (simp add: pow2_0)
qed


lemma toDouble_nonneg: "0 \<le> x \<Longrightarrow> 0 \<le> toDouble x"
proof -
  assume "0 \<le> x"
  then have "0 \<le> x / pow2 (exponent x - 52)" using pow2_pos [of "exponent x - 52"] by simp
  then have "roundEven 0 \<le> roundEven (x / pow2 (exponent x - 52))" by (rule roundEven_mono)
  then have "0 \<le> roundEven (x / pow2 (exponent x - 52))"
    using roundEven_int [of 0] by simp
  then show ?thesis
    using pow2_pos [of "exponent x - 52"] by (simp add: toDouble_def Let_def)
qed

lemma toDouble_upper:
  assumes "0 \<le> x" "x < pow2 (exponent x + 1)"
  shows "toDouble x \<le> pow2 (exponent x + 1)"
proof -
  define e where "e = exponent x"
  define u where "u = pow2 (e - 52)"
  have u: "0 < u" unfolding u_def by (rule pow2_pos)
  have "e + 1 = 53 + (e - 52)" by simp
  then have s: "pow2 (e + 1) = pow2 53 * u"
    unfolding u_def by (simp only: pow2_add)
  have "x / u \<le> pow2 53" using assms(2) u unfolding e_def [symmetric] s by (simp add: field_simps)
  then have "roundEven (x / u) \<le> roundEven (pow2 53)" by (rule roundEven_mono)
  also have "pow2 53 = of_int (2 ^ 53)" by (simp add: pow2_def)
  finally have "roundEven (x / u) \<le> 2 ^ 53" by (simp only: roundEven_int)
  then have "real_of_int (roundEven (x / u)) \<le> real_of_int (2 ^ 53)" by (simp only: of_int_le_iff)
  then have "real_of_int (roundEven (x / u)) \<le> pow2 53" by (simp add: pow2_def)
  then have "real_of_int (roundEven (x / u)) * u \<le> pow2 53 * u"
    using u by (simp only: mult_right_mono less_imp_le)
  then show ?thesis
    unfolding e_def [symmetric] s by (simp add: toDouble_def Let_def e_def [symmetric] u_def [symmetric])
qed

lemma toDouble_lower:
  assumes "pow2 (exponent x) \<le> x"
  shows "pow2 (exponent x) \<le> toDouble x"
proof -
  define e where "e = exponent x"
  define u where "u = pow2 (e - 52)"
  have u: "0 < u" unfolding u_def by (rule pow2_pos)
  have s: "pow2 e = pow2 52 * u"
    unfolding u_def pow2_add [symmetric] by simp
  have "pow2 52 \<le> x / u" using assms u unfolding e_def [symmetric] s by (simp add: field_simps)
  then have "roundEven (pow2 52) \<le> roundEven (x / u)" by (rule roundEven_mono)
  moreover have "pow2 52 = of_int (2 ^ 52)" by (simp add: pow2_def)
  ultimately have "2 ^ 52 \<le> roundEven (x / u)" by (simp only: roundEven_int)
  then have "real_of_int (2 ^ 52) \<le> real_of_int (roundEven (x / u))" by (simp only: of_int_le_iff)
  then have "pow2 52 \<le> real_of_int (roundEven (x / u))" by (simp add: pow2_def)
  then have "pow2 52 * u \<le> real_of_int (roundEven (x / u)) * u"
    using u by (simp only: mult_right_mono less_imp_le)
  then show ?thesis
    unfolding e_def [symmetric] s by (simp add: toDouble_def Let_def e_def [symmetric] u_def [symmetric])
qed

lemma toDouble_mono_pos:
  assumes "0 \<le> x" "x \<le> y"
  shows "toDouble x \<le> toDouble y"
proof -
  have y0: "0 \<le> y" using assms by simp
  consider "exponent x = exponent y" | "exponent x < exponent y" | "exponent y < exponent x"
    by linarith
  then show ?thesis
  proof cases
    case 1
    have "x / pow2 (exponent y - 52) \<le> y / pow2 (exponent y - 52)"
      using assms(2) pow2_pos [of "exponent y - 52"] by (simp add: divide_right_mono)
    then have "roundEven (x / pow2 (exponent y - 52)) \<le> roundEven (y / pow2 (exponent y - 52))"
      by (rule roundEven_mono)
    then have "real_of_int (roundEven (x / pow2 (exponent y - 52))) * pow2 (exponent y - 52)
        \<le> real_of_int (roundEven (y / pow2 (exponent y - 52))) * pow2 (exponent y - 52)"
      using pow2_pos [of "exponent y - 52"] by (simp add: mult_right_mono)
    then show ?thesis by (simp add: toDouble_def Let_def 1)
  next
    case 2
    have "exponent y \<le> 1023" by (rule exponent_range)
    with 2 have "exponent x < 1023" by simp
    from exponent_upper' [OF this] assms(1) have "x < pow2 (exponent x + 1)" by simp
    from toDouble_upper [OF assms(1) this] have a: "toDouble x \<le> pow2 (exponent x + 1)" .
    have b: "pow2 (exponent x + 1) \<le> pow2 (exponent y)" using 2 by (simp add: pow2_le)
    have "- 1022 \<le> exponent x" by (rule exponent_range)
    with 2 have "- 1022 < exponent y" by simp
    from exponent_lower' [OF this] y0 have "pow2 (exponent y) \<le> y" by simp
    from toDouble_lower [OF this] a b show ?thesis by linarith
  next
    case 3
    have "- 1022 \<le> exponent y" by (rule exponent_range)
    with 3 have "- 1022 < exponent x" by simp
    from exponent_lower' [OF this] assms(1) have a: "pow2 (exponent x) \<le> x" by simp
    have "exponent x \<le> 1023" by (rule exponent_range)
    with 3 have "exponent y < 1023" by simp
    from exponent_upper' [OF this] y0 have b: "y < pow2 (exponent y + 1)" by simp
    have "pow2 (exponent y + 1) \<le> pow2 (exponent x)" using 3 by (simp add: pow2_le)
    with a b assms(2) have False by linarith
    then show ?thesis ..
  qed
qed

lemma toDouble_mono:
  assumes "x \<le> y"
  shows "toDouble x \<le> toDouble y"
proof -
  consider "0 \<le> x" | "x < 0" "0 \<le> y" | "y < 0" using assms by linarith
  then show ?thesis
  proof cases
    case 1
    then show ?thesis using assms by (rule toDouble_mono_pos)
  next
    case 2
    then have "0 \<le> - x" by simp
    from toDouble_nonneg [OF this] have "toDouble x \<le> 0" by (simp add: toDouble_minus)
    with toDouble_nonneg [OF 2(2)] show ?thesis by simp
  next
    case 3
    then have "0 \<le> - y" "- y \<le> - x" using assms by simp_all
    from toDouble_mono_pos [OF this] show ?thesis by (simp add: toDouble_minus)
  qed
qed


section \<open>The training loop\<close>

lemma jsSub_le_0: "x \<le> y \<Longrightarrow> jsSub x y \<le> 0"
proof -
  assume "x \<le> y"
  then have "x - y \<le> 0" by simp
  then have "toDouble (x - y) \<le> toDouble 0" by (rule toDouble_mono)
  then show ?thesis by (simp add: jsSub_def toDouble_0)
qed

lemma toDouble_1: "toDouble 1 = 1"
  using toDouble_int [of 1] by simp




lemma slice_nat:
  "slice \<lparr>seqBegin = real a, seqEnd = real a + real c - 1\<rparr> xs = take c (drop a xs)"
proof -
  have "real a + real c - 1 = of_int (int a + int c - 1)" by simp
  then have "\<lfloor>real a + real c - 1\<rfloor> = int a + int c - 1" by (simp only: floor_of_int)
  then have "nat (\<lfloor>real a + real c - 1\<rfloor> + 1) = a + c" by simp
  then show ?thesis by (simp add: slice_def take_drop add.commute)
qed

lemma inRange_nat:
  assumes "a + c \<le> n" "0 < c"
  shows "inRange \<lparr>seqBegin = real a, seqEnd = real a + real c - 1\<rparr> n"
proof -
  have e: "real a + real c - 1 = of_int (int a + int c - 1)" by simp
  have "of_int \<lfloor>real a + real c - 1\<rfloor> = real a + real c - 1"
    unfolding e by (simp only: floor_of_int)
  moreover have "real a + real c - 1 < real n"
    using assms(1) by (simp add: less_le_trans [of _ "real a + real c"])
  ultimately show ?thesis using assms(2) by (simp add: inRange_def)
qed

lemma rowsAt_nat:
  assumes "a + c \<le> length t" "0 < c"
  shows "rowsAt lb \<lparr>seqBegin = real a, seqEnd = real a + real c - 1\<rparr> t = Some (take c (drop a t))"
  using inRange_nat [OF assms] by (simp add: rowsAt_def slice_nat)

lemma batchLoop_runBatches:
  "batchLoop opts input target nb j net
     = runBatches opts input target [j..<nat \<lceil>jsSub nb 1\<rceil>] net"
proof (induction opts input target nb j net rule: batchLoop.induct)
  case (1 opts input target nb j net)
  show ?case
  proof (cases "real j < jsSub nb 1")
    case True
    then have "j < nat \<lceil>jsSub nb 1\<rceil>" by linarith
    then have u: "[j..<nat \<lceil>jsSub nb 1\<rceil>] = j # [j + 1..<nat \<lceil>jsSub nb 1\<rceil>]"
      by (simp add: upt_conv_Cons)
    show ?thesis
      unfolding u using True "1.IH" [OF True]
      by (simp split: option.splits)
  next
    case False
    then have "nat \<lceil>jsSub nb 1\<rceil> \<le> j" by linarith
    with False show ?thesis by simp
  qed
qed

lemma zero_batches:
  assumes "0 < N" "N \<le> B"
  shows "numBatchesOf N B \<le> 1" "jsSub (numBatchesOf N B) 1 \<le> 0"
    "[0..<nat \<lceil>jsSub (numBatchesOf N B) 1\<rceil>] = []"
proof -
  have "real N \<le> real B" "0 < real B" using assms by simp_all
  then have "real N / real B \<le> 1" by simp
  then have "toDouble (real N / real B) \<le> toDouble 1" by (rule toDouble_mono)
  then show le: "numBatchesOf N B \<le> 1"
    by (simp add: numBatchesOf_def jsDiv_def toDouble_1)
  then show z: "jsSub (numBatchesOf N B) 1 \<le> 0" by (rule jsSub_le_0)
  then have "\<lceil>jsSub (numBatchesOf N B) 1\<rceil> \<le> 0" by (simp add: ceiling_le_zero)
  then show "[0..<nat \<lceil>jsSub (numBatchesOf N B) 1\<rceil>] = []" by simp
qed

lemma calculateError_Some:
  assumes "shape out b n" "shape pred b n"
  shows "\<exists>e. calculateError out pred = Some e"
proof -
  from zipT_shape [OF assms] obtain dif where d: "subT out pred = Some dif" "shape dif b n"
    by (simp add: subT_def)
  from zipT_shape [OF d(2) d(2)] obtain sq where "mulT dif dif = Some sq"
    by (simp add: mulT_def)
  with d show ?thesis by (simp add: calculateError_def)
qed

lemma predict_ok:
  assumes "wfNet layers net" "layers \<noteq> []" "shape input b (layers ! 0)" "0 < b"
  shows "\<exists>net' out. predict net input = Some (net', out) \<and> wfNet layers net'
           \<and> weights net' = weights net \<and> shape out b (last layers)"
proof -
  from forwardPropagate_ok [OF assms] obtain net' where
    fp: "forwardPropagate net input = Some net'"
    and w: "weights net' = weights net" "numLayers net' = numLayers net"
    and l: "length (signal net') = length layers"
    and sh: "\<forall>k<length layers. shape (signal net' ! k) b (layers ! k)"
    and a: "af net' = af net"
    by (elim exE conjE)
  have L: "0 < length layers" using assms(2) by simp
  have wf: "wfNet layers net'"
    using assms(1) w l by (simp add: wfNet_def)
  have nl: "numLayers net' = length layers" using wf by (simp add: wfNet_def)
  have "shape (signal net' ! (length layers - 1)) b (last layers)"
    using sh L assms(2) by (simp add: last_conv_nth)
  moreover have "predict net input = Some (net', signal net' ! (length layers - 1))"
    using fp nl l L by (simp add: predict_def nth_opt_def)
  ultimately show ?thesis using wf w by blast
qed

section \<open>What the training batches read\<close>

lemma take_Suc_eq_nth:
  assumes "take (Suc i) xs = take (Suc i) ys" "i < length xs"
  shows "xs ! i = ys ! i"
proof -
  have "take (Suc i) xs ! i = take (Suc i) ys ! i" using assms(1) by simp
  then show ?thesis by simp
qed



lemma take_update_same:
  assumes "take k xs = take k ys" "length xs = length ys" "k < length xs"
  shows "take (Suc k) (xs[k := z]) = take (Suc k) (ys[k := z])"
  using assms by (simp add: take_Suc_conv_app_nth)

lemma forwardStep_sim:
  assumes "simNet a b" "take (Suc i) (signal a) = take (Suc i) (signal b)"
  shows "rel_option (\<lambda>a' b'. simNet a' b'
            \<and> take (Suc (Suc i)) (signal a') = take (Suc (Suc i)) (signal b'))
          (forwardStep i a) (forwardStep i b)"
proof (cases "i + 1 < length (signal a) \<and> i < length (weights a)")
  case False
  then have "forwardStep i a = None" "forwardStep i b = None"
    using assms(1) by (auto simp: forwardStep_def nth_opt_def simNet_def split: bind_splits)
  then show ?thesis by simp
next
  case True
  have eq: "signal a ! i = signal b ! i"
    using take_Suc_eq_nth [OF assms(2)] True by simp
  have w: "weights a = weights b" "length (signal a) = length (signal b)"
    using assms(1) by (simp_all add: simNet_def)
  show ?thesis
  proof (cases "specLayer (signal a ! i) (weights a ! i)")
    case None
    then have "forwardStep i a = None" "forwardStep i b = None"
      using forwardStep_Some [of i a] forwardStep_Some [of i b] eq w
      by (metis not_Some_eq option.distinct(1))+
    then show ?thesis by simp
  next
    case (Some z)
    have fa: "forwardStep i a = Some (a\<lparr>signal := (signal a)[i + 1 := z]\<rparr>)"
      unfolding forwardStep_Some using True Some by simp
    have fb: "forwardStep i b = Some (b\<lparr>signal := (signal b)[i + 1 := z]\<rparr>)"
      unfolding forwardStep_Some using True Some eq w by simp
    have "take (Suc (Suc i)) ((signal a)[Suc i := z]) = take (Suc (Suc i)) ((signal b)[Suc i := z])"
      using take_update_same [OF assms(2) w(2)] True by simp
    then show ?thesis
      unfolding fa fb using assms(1) by (simp add: simNet_def)
  qed
qed

lemma forwardLoop_sim:
  "simNet a b \<Longrightarrow> take (Suc i) (signal a) = take (Suc i) (signal b) \<Longrightarrow>
     rel_option (\<lambda>a' b'. simNet a' b'
        \<and> take (max n (Suc i)) (signal a') = take (max n (Suc i)) (signal b'))
       (forwardLoop n i a) (forwardLoop n i b)"
proof (induction n i a arbitrary: b rule: forwardLoop.induct)
  case (1 n i a)
  show ?case
  proof (cases "int i < int n - 1")
    case False
    then have "max n (Suc i) = Suc i" by auto
    with False "1.prems" show ?thesis by simp
  next
    case True
    then have m: "max n (Suc i) = n" "max n (Suc (i + 1)) = n" by auto
    note st = forwardStep_sim [OF "1.prems"]
    show ?thesis
    proof (cases "forwardStep i a")
      case None
      with st have "forwardStep i b = None" by (cases "forwardStep i b") simp_all
      with None True show ?thesis by simp
    next
      case (Some a1)
      with st obtain b1 where b1: "forwardStep i b = Some b1" "simNet a1 b1"
        "take (Suc (Suc i)) (signal a1) = take (Suc (Suc i)) (signal b1)"
        by (cases "forwardStep i b") simp_all
      from "1.IH" [OF True Some b1(2)] b1(3) m
      have "rel_option (\<lambda>a' b'. simNet a' b' \<and> take n (signal a') = take n (signal b'))
              (forwardLoop n (i + 1) a1) (forwardLoop n (i + 1) b1)"
        by simp
      then show ?thesis
        using True Some b1(1) m by simp
    qed
  qed
qed

lemma forwardPropagate_sim:
  assumes "simNet a b"
  shows "rel_option (\<lambda>a' b'. simNet a' b'
            \<and> take (max (numLayers a) 1) (signal a') = take (max (numLayers a) 1) (signal b'))
          (forwardPropagate a x) (forwardPropagate b x)"
proof (cases "signal a = []")
  case True
  with assms have "signal b = []" by (simp add: simNet_def)
  with True show ?thesis by (simp add: forwardPropagate_def)
next
  case False
  with assms have nb: "signal b \<noteq> []" by (auto simp: simNet_def)
  let ?a = "a\<lparr>signal := (signal a)[0 := x]\<rparr>" and ?b = "b\<lparr>signal := (signal b)[0 := x]\<rparr>"
  have s: "simNet ?a ?b" using assms by (simp add: simNet_def)
  have t: "take (Suc 0) (signal ?a) = take (Suc 0) (signal ?b)"
    using False nb by (cases "signal a"; cases "signal b") simp_all
  have n: "numLayers a = numLayers b" using assms by (simp add: simNet_def)
  from forwardLoop_sim [OF s t, of "numLayers a"] show ?thesis
    using False nb n by (simp add: forwardPropagate_def)
qed




lemma forwardPropagate_frame:
  assumes "forwardPropagate a x = Some a1"
  shows "numLayers a1 = numLayers a" "weights a1 = weights a"
proof -
  from assms have "forwardLoop (numLayers a) 0 (a\<lparr>signal := (signal a)[0 := x]\<rparr>) = Some a1"
    by (simp add: forwardPropagate_def del: forwardLoop.simps split: if_splits)
  from forwardLoop_props [OF this] show "numLayers a1 = numLayers a" "weights a1 = weights a"
    by simp_all
qed



section \<open>Validation on permuted rows\<close>
















section \<open>The split between training and validation rows\<close>














section \<open>A batch size of at least the number of samples\<close>

lemma toDouble_neg_int:
  assumes "k < 2 ^ 53"
  shows "toDouble (real k - 1) = real k - 1"
proof -
  have "\<bar>int k - 1\<bar> < 2 ^ 53"
    using assms by (simp add: zless_nat_eq_int_zless [symmetric] nat_power_eq abs_if)
  from toDouble_int [OF this] show ?thesis by simp
qed

lemma validSeq_whole:
  assumes "0 < N" "N < 2 ^ 53" "batchSize opts = N"
  shows "validSeq opts N (numBatchesOf N (batchSize opts)) = \<lparr>seqBegin = 0, seqEnd = real N - 1\<rparr>"
proof -
  have "numBatchesOf N (batchSize opts) = 1"
    using assms(1,3) by (simp add: numBatchesOf_def jsDiv_def toDouble_1)
  then show ?thesis
    by (simp add: validSeq_def jsSub_def jsMul_def toDouble_0 toDouble_neg_int [OF assms(2)])
qed

lemma rowsAt_whole:
  assumes "length t = N" "0 < N"
  shows "rowsAt lb \<lparr>seqBegin = 0, seqEnd = real N - 1\<rparr> t = Some t"
  using rowsAt_nat [of 0 N t lb] assms by simp

lemma predict_Some:
  "predict net x = Some (net', out) \<longleftrightarrow>
     forwardPropagate net x = Some net' \<and> numLayers net' \<noteq> 0
     \<and> numLayers net' - 1 < length (signal net') \<and> out = signal net' ! (numLayers net' - 1)"
  by (auto simp: predict_def nth_opt_def split: bind_splits if_splits)

lemma predict_again:
  assumes "wfNet layers net" "layers \<noteq> []" "shape input b (layers ! 0)" "0 < b"
    and "predict net input = Some (net1, out)"
  shows "predict net1 input = Some (net1, out)"
proof -
  from assms(5) have fp: "forwardPropagate net input = Some net1"
    and o: "numLayers net1 \<noteq> 0" "numLayers net1 - 1 < length (signal net1)"
      "out = signal net1 ! (numLayers net1 - 1)"
    unfolding predict_Some by simp_all
  from forwardPropagate_ok [OF assms(1-4)] fp have
    w: "weights net1 = weights net" "numLayers net1 = numLayers net"
    and l: "length (signal net1) = length layers"
    and a: "af net1 = af net"
    by auto
  have len: "length (signal net) = length layers" "numLayers net = length layers"
    using assms(1) by (simp_all add: wfNet_def)
  have sim: "simNet net net1"
    using w l a len by (simp add: simNet_def)
  from forwardPropagate_sim [OF sim, of input] fp obtain net2 where
    fp2: "forwardPropagate net1 input = Some net2" and s2: "simNet net1 net2"
    and tk: "take (max (numLayers net) 1) (signal net1) = take (max (numLayers net) 1) (signal net2)"
    by (cases "forwardPropagate net1 input") simp_all
  have l2: "length (signal net2) = length layers"
    using s2 l by (simp add: simNet_def)
  have "max (numLayers net) 1 = length layers"
    using len assms(2) by (cases layers) simp_all
  with tk l l2 have "signal net1 = signal net2" by simp
  with s2 have "net2 = net1" by (cases net1; cases net2) (simp add: simNet_def)
  with fp2 o show ?thesis unfolding predict_Some by simp
qed

lemma validate_frame:
  assumes "validate opts input target N nb net = Some (net', e)"
  shows "weights net' = weights net"
proof -
  from assms obtain x out where "predict net x = Some (net', out)"
    by (auto simp: validate_def Let_def split: bind_splits)
  then have "forwardPropagate net x = Some net'" unfolding predict_Some by simp
  then show ?thesis by (rule forwardPropagate_frame(2))
qed

lemma epochLoop_weights:
  assumes "\<And>net0. batchLoop opts input target nb 0 net0 = Some net0"
  shows "epochLoop opts input target N nb k st = Some st' \<Longrightarrow> weights (fst st') = weights (fst st)"
proof (induction k arbitrary: st)
  case 0
  then show ?case by simp
next
  case (Suc k)
  from Suc.prems assms obtain st1 where
    v: "validate opts input target N nb (fst st) = Some st1"
    and r: "jsLess (snd st1) (maxError opts) \<and> st' = st1
            \<or> epochLoop opts input target N nb k st1 = Some st'"
    by (auto simp del: batchLoop.simps split: option.splits if_splits)
  have w1: "weights (fst st1) = weights (fst st)"
    using validate_frame [of opts input target N nb "fst st" "fst st1" "snd st1"] v by simp
  from r show ?case
  proof
    assume "jsLess (snd st1) (maxError opts) \<and> st' = st1"
    with w1 show ?thesis by simp
  next
    assume "epochLoop opts input target N nb k st1 = Some st'"
    from Suc.IH [OF this] w1 show ?thesis by simp
  qed
qed

lemma epochLoop_fixed:
  assumes "\<And>net0. batchLoop opts input target nb 0 net0 = Some net0"
    and "validate opts input target N nb net1 = Some (net1, e)"
  shows "epochLoop opts input target N nb k (net1, e) = Some (net1, e)"
  by (induction k) (simp_all add: assms del: batchLoop.simps)

lemma epochLoop_first:
  assumes "\<And>net0. batchLoop opts input target nb 0 net0 = Some net0"
    and "validate opts input target N nb net = Some (net1, e)"
    and "validate opts input target N nb net1 = Some (net1, e)"
  shows "epochLoop opts input target N nb (Suc k) (net, e0) = Some (net1, e)"
  using epochLoop_fixed [OF assms(1,3), of k] by (simp add: assms(1,2) del: batchLoop.simps)

lemma one_minus_small:
  assumes "0 < N" "N < B" "B < 2 ^ 53"
  shows "numBatchesOf N B \<le> 1 - 1 / 2 ^ 53"
proof -
  have B: "0 < real B" using assms by simp
  have "real B \<le> 2 ^ 53" using assms(3) by (metis less_imp_le of_nat_le_iff of_nat_numeral of_nat_power)
  then have i: "1 / 2 ^ 53 \<le> 1 / real B" using B by (simp add: frac_le)
  have "N + 1 \<le> B" using assms(2) by simp
  then have "real (N + 1) \<le> real B" by (simp only: of_nat_le_iff)
  then have "real N + 1 \<le> real B" by simp
  then have "real N / real B \<le> (real B - 1) / real B" using B by (simp add: divide_right_mono)
  also have "\<dots> = 1 - 1 / real B" using B by (simp add: diff_divide_distrib)
  also have "\<dots> \<le> 1 - 1 / 2 ^ 53" using i by simp
  finally have "toDouble (real N / real B) \<le> toDouble (1 - 1 / 2 ^ 53)" by (rule toDouble_mono)
  moreover have "toDouble (of_int (2 ^ 53 - 1) * pow2 (- 53)) = of_int (2 ^ 53 - 1) * pow2 (- 53)"
    by (rule toDouble_exact) (simp_all add: pow2_def)
  then have "toDouble (1 - 1 / 2 ^ 53) = 1 - 1 / 2 ^ 53" by (simp add: pow2_def)
  ultimately show ?thesis by (simp add: numBatchesOf_def jsDiv_def)
qed

lemma toDouble_small_neg: "toDouble (- (1 / 2 ^ 53)) = - (1 / 2 ^ 53)"
proof -
  have "toDouble (of_int (- 1) * pow2 (- 53)) = of_int (- 1) * pow2 (- 53)"
    by (rule toDouble_exact) (simp_all add: pow2_def)
  then show ?thesis by (simp add: pow2_def)
qed

lemma validSeq_negative:
  assumes "0 < N" "N < B" "B < 2 ^ 53" "batchSize opts = B"
  shows "seqBegin (validSeq opts N (numBatchesOf N (batchSize opts))) < 0"
proof -
  let ?nb = "numBatchesOf N B"
  have "?nb - 1 \<le> - (1 / 2 ^ 53)" using one_minus_small [OF assms(1-3)] by simp
  then have "toDouble (?nb - 1) \<le> toDouble (- (1 / 2 ^ 53))" by (rule toDouble_mono)
  then have b1: "jsSub ?nb 1 \<le> - (1 / 2 ^ 53)" by (simp only: jsSub_def toDouble_small_neg)
  have B1: "1 \<le> real B" using assms(1,2) by simp
  have "jsSub ?nb 1 * real B \<le> jsSub ?nb 1 * 1"
    using b1 B1 by (intro mult_left_mono_neg) simp_all
  with b1 have "jsSub ?nb 1 * real B \<le> - (1 / 2 ^ 53)" by linarith
  then have "toDouble (jsSub ?nb 1 * real B) \<le> toDouble (- (1 / 2 ^ 53))" by (rule toDouble_mono)
  then have "jsMul (jsSub ?nb 1) (real B) \<le> - (1 / 2 ^ 53)"
    by (simp only: jsMul_def toDouble_small_neg)
  then have "jsMul (jsSub ?nb 1) (real B) < 0"
    by (rule le_less_trans) simp
  then show ?thesis by (simp add: validSeq_def assms(4))
qed

lemma rowsAt_outside: "seqBegin s < 0 \<Longrightarrow> rowsAt lb s t = rowsOut lb s t"
  by (simp add: rowsAt_def inRange_def)

lemma epochLoop_raises:
  assumes "\<And>net0. batchLoop opts input target nb 0 net0 = Some net0"
    and "rowsAt (af (fst st)) (validSeq opts N nb) input = None"
  shows "epochLoop opts input target N nb (Suc k) st = None"
  using assms by (simp add: validate_def del: batchLoop.simps)


lemma toDouble_dyadic:
  assumes "\<bar>m\<bar> < 2 ^ 53" "k \<le> 1074"
  shows "toDouble (of_int m / 2 ^ k) = of_int m / 2 ^ k"
proof -
  have p: "pow2 (- int k) = 1 / 2 ^ k" by (simp add: pow2_def)
  have "\<bar>m\<bar> + 1 \<le> 2 ^ 53" using assms(1) by simp
  then have "real_of_int (\<bar>m\<bar> + 1) \<le> real_of_int (2 ^ 53)" by (simp only: of_int_le_iff)
  then have m: "\<bar>real_of_int m\<bar> < 2 ^ 53" by simp
  have "\<bar>real_of_int m\<bar> / 2 ^ k \<le> \<bar>real_of_int m\<bar> / 1"
    by (rule divide_left_mono) simp_all
  also have "\<dots> < 2 ^ 53" using m by simp
  also have "(2 :: real) ^ 53 \<le> 2 ^ 1024" by (rule power_increasing) simp_all
  finally have "\<bar>of_int m * pow2 (- int k)\<bar> < pow2 1024"
    unfolding p by (simp add: pow2_def abs_mult)
  from toDouble_exact [OF assms(1) _ this] assms(2) show ?thesis by (simp add: p)
qed

text \<open>
  C7, as amended: when \<open>batchSize \<ge> numSamples\<close> (so \<open>numBatches < 2\<close>; sizes below \<open>2 ^ 53\<close>), on
  a network built for the layer sizes, a non-empty input of shape \<open>(numSamples, layerSize[0])\<close>
  and a target of shape \<open>(numSamples, layerSize[L-1])\<close>, the loop over the training batches
  runs no index and returns the network as it is, and \<open>train\<close> leaves the weights unchanged
  whenever it returns. When \<open>batchSize = numSamples\<close> the validation slice of the input and of the
  target is the whole tensor and \<open>train\<close> returns: with no epoch the network as it is and the
  error 0, otherwise the network after \<open>predict\<close> on the whole input and the error metric of
  that prediction against the whole target. When \<open>batchSize > numSamples\<close> the validation
  \<open>Seq\<close> begins before row 0, so the validation slice is the answer of the library to a
  \<open>Seq\<close> that leaves the array, and \<open>train\<close> raises when the library does.
\<close>

theorem train_degenerate:
  assumes "wfNet layers net" and "layers \<noteq> []" and "shape input N (layers ! 0)"
    and "shape target N (last layers)" and "0 < N" and "N \<le> batchSize opts"
    and "batchSize opts < 2 ^ 53"
  shows "numBatchesOf N (batchSize opts) < 2
     \<and> (\<forall>net0. batchLoop opts input target (numBatchesOf N (batchSize opts)) 0 net0
           = runBatches opts input target [] net0)
     \<and> (\<forall>net0. batchLoop opts input target (numBatchesOf N (batchSize opts)) 0 net0 = Some net0)
     \<and> (\<forall>net' err. train net input target opts = Some (net', err) \<longrightarrow> weights net' = weights net)
     \<and> (batchSize opts = N \<longrightarrow>
           rowsAt (af net) (validSeq opts N (numBatchesOf N (batchSize opts))) input = Some input
         \<and> rowsAt (af net) (validSeq opts N (numBatchesOf N (batchSize opts))) target = Some target
         \<and> (\<exists>net1 out e. predict net input = Some (net1, out)
               \<and> calculateError out target = Some e \<and> weights net1 = weights net
               \<and> train net input target opts
                   = Some (if maxEpochs opts = 0 then (net, Num 0) else (net1, e))))
     \<and> (N < batchSize opts \<longrightarrow>
           seqBegin (validSeq opts N (numBatchesOf N (batchSize opts))) < 0
         \<and> rowsAt (af net) (validSeq opts N (numBatchesOf N (batchSize opts))) input
             = rowsOut (af net) (validSeq opts N (numBatchesOf N (batchSize opts))) input
         \<and> (rowsOut (af net) (validSeq opts N (numBatchesOf N (batchSize opts))) input = None
              \<and> 0 < maxEpochs opts \<longrightarrow> train net input target opts = None))"
proof -
  let ?nb = "numBatchesOf N (batchSize opts)"
  let ?s = "validSeq opts N ?nb"
  note z = zero_batches [OF assms(5,6)]
  have nb: "?nb < 2" using z(1) by simp
  have bl: "batchLoop opts input target ?nb 0 net0 = runBatches opts input target [] net0" for net0
    unfolding batchLoop_runBatches z(3) ..
  have bl': "batchLoop opts input target ?nb 0 net0 = Some net0" for net0
    unfolding bl by simp
  have B: "batchSize opts \<noteq> 0" using assms(5,6) by simp
  have N: "dims input 0 = N" using assms(3) by (rule shape_dims0)
  have len: "length input = N" "length target = N"
    using assms(3,4) by (simp_all add: shape_def)
  have tr: "train net input target opts = epochLoop opts input target N ?nb (maxEpochs opts) (net, Num 0)"
    if "maxEpochs opts \<noteq> 0"
    using that B by (simp add: train_def N)
  have wts: "weights net' = weights net" if "train net input target opts = Some (net', err)"
    for net' err
  proof (cases "maxEpochs opts = 0")
    case True
    with that show ?thesis by (simp add: train_def)
  next
    case False
    from that have "epochLoop opts input target N ?nb (maxEpochs opts) (net, Num 0) = Some (net', err)"
      unfolding tr [OF False] .
    from epochLoop_weights [OF bl' this] show ?thesis by simp
  qed
  have whole: "rowsAt (af net) ?s input = Some input \<and> rowsAt (af net) ?s target = Some target
         \<and> (\<exists>net1 out e. predict net input = Some (net1, out)
               \<and> calculateError out target = Some e \<and> weights net1 = weights net
               \<and> train net input target opts
                   = Some (if maxEpochs opts = 0 then (net, Num 0) else (net1, e)))"
    if eq: "batchSize opts = N"
  proof -
    have N53: "N < 2 ^ 53" using assms(7) eq by simp
    note vs = validSeq_whole [OF assms(5) N53 eq]
    have ri: "rowsAt lb ?s input = Some input" and rt: "rowsAt lb ?s target = Some target" for lb
      unfolding vs by (rule rowsAt_whole [OF len(1) assms(5)], rule rowsAt_whole [OF len(2) assms(5)])
    from predict_ok [OF assms(1,2,3,5)] obtain net1 out where
      p: "predict net input = Some (net1, out)" "wfNet layers net1" "weights net1 = weights net"
        "shape out N (last layers)"
      by blast
    from calculateError_Some [OF p(4) assms(4)] obtain e where e: "calculateError out target = Some e"
      by blast
    have p1: "predict net1 input = Some (net1, out)"
      by (rule predict_again [OF assms(1,2,3,5) p(1)])
    have v: "validate opts input target N ?nb net = Some (net1, e)"
      using p(1) e by (simp add: validate_def Let_def ri rt)
    have v1: "validate opts input target N ?nb net1 = Some (net1, e)"
      using p1 e by (simp add: validate_def Let_def ri rt)
    have "train net input target opts = Some (if maxEpochs opts = 0 then (net, Num 0) else (net1, e))"
    proof (cases "maxEpochs opts")
      case 0
      then show ?thesis by (simp add: train_def)
    next
      case (Suc k)
      then have "maxEpochs opts \<noteq> 0" by simp
      from tr [OF this] epochLoop_first [OF bl' v v1, of k "Num 0"] Suc show ?thesis by simp
    qed
    with ri [of "af net"] rt [of "af net"] p(1,3) e show ?thesis by blast
  qed
  have outside: "seqBegin ?s < 0 \<and> rowsAt (af net) ?s input = rowsOut (af net) ?s input
         \<and> (rowsOut (af net) ?s input = None \<and> 0 < maxEpochs opts
              \<longrightarrow> train net input target opts = None)"
    if lt: "N < batchSize opts"
  proof -
    have neg: "seqBegin ?s < 0"
      by (rule validSeq_negative [OF assms(5) lt assms(7) refl])
    have ro: "rowsAt (af net) ?s input = rowsOut (af net) ?s input"
      using neg by (rule rowsAt_outside)
    have "train net input target opts = None"
      if "rowsOut (af net) ?s input = None" "0 < maxEpochs opts"
    proof -
      from that(2) obtain k where k: "maxEpochs opts = Suc k" by (cases "maxEpochs opts") simp_all
      then have "maxEpochs opts \<noteq> 0" by simp
      from tr [OF this] have "train net input target opts
          = epochLoop opts input target N ?nb (Suc k) (net, Num 0)"
        unfolding k .
      also have "\<dots> = None"
        by (rule epochLoop_raises [OF bl']) (simp add: ro that(1))
      finally show ?thesis .
    qed
    with neg ro show ?thesis by blast
  qed
  show ?thesis
  proof (intro conjI allI)
    show "?nb < 2" by (rule nb)
    show "batchLoop opts input target ?nb 0 net0 = runBatches opts input target [] net0" for net0
      by (rule bl)
    show "batchLoop opts input target ?nb 0 net0 = Some net0" for net0
      by (rule bl')
    show "train net input target opts = Some (net', err) \<longrightarrow> weights net' = weights net" for net' err
      using wts by blast
    show "batchSize opts = N \<longrightarrow>
           rowsAt (af net) ?s input = Some input \<and> rowsAt (af net) ?s target = Some target
         \<and> (\<exists>net1 out e. predict net input = Some (net1, out)
               \<and> calculateError out target = Some e \<and> weights net1 = weights net
               \<and> train net input target opts
                   = Some (if maxEpochs opts = 0 then (net, Num 0) else (net1, e)))"
      using whole by blast
    show "N < batchSize opts \<longrightarrow>
           seqBegin ?s < 0 \<and> rowsAt (af net) ?s input = rowsOut (af net) ?s input
         \<and> (rowsOut (af net) ?s input = None \<and> 0 < maxEpochs opts
              \<longrightarrow> train net input target opts = None)"
      using outside by blast
  qed
qed


lemma predict_example:
  "predict \<lparr>af = lb, numLayers = 2, signal = [[], []], weights = [[[0], [0]]]\<rparr> [[1]]
     = Some (\<lparr>af = lb, numLayers = 2, signal = [[[1]], [[1 / 2]]], weights = [[[0], [0]]]\<rparr>,
             [[1 / 2]])"
  by (simp add: predict_def forwardPropagate_def forwardStep_def nth_opt_def addBias_eq matMul_def
      dims_def dot_def col_def sigmoid_def)

theorem train_degenerate_witness:
  "wfNet [1, 1] \<lparr>af = raising, numLayers = 2, signal = [[], []], weights = [[[0], [0]]]\<rparr>
   \<and> [1, 1 :: nat] \<noteq> [] \<and> shape [[1]] 1 ([1, 1] ! 0) \<and> shape [[1 / 2]] 1 (last [1, 1])
   \<and> (0 :: nat) < 1
   \<and> 1 \<le> batchSize \<lparr>batchSize = 1, maxEpochs = 3, alpha = 1, maxError = 0\<rparr>
   \<and> batchSize \<lparr>batchSize = 1, maxEpochs = 3, alpha = 1, maxError = 0\<rparr> < 2 ^ 53
   \<and> batchSize \<lparr>batchSize = 1, maxEpochs = 3, alpha = 1, maxError = 0\<rparr> = 1
   \<and> train \<lparr>af = raising, numLayers = 2, signal = [[], []], weights = [[[0], [0]]]\<rparr> [[1]] [[1 / 2]]
        \<lparr>batchSize = 1, maxEpochs = 3, alpha = 1, maxError = 0\<rparr>
       = Some (\<lparr>af = raising, numLayers = 2, signal = [[[1]], [[1 / 2]]], weights = [[[0], [0]]]\<rparr>,
               Num 0)
   \<and> 1 < batchSize \<lparr>batchSize = 2, maxEpochs = 3, alpha = 1, maxError = 0\<rparr>
   \<and> batchSize \<lparr>batchSize = 2, maxEpochs = 3, alpha = 1, maxError = 0\<rparr> < 2 ^ 53
   \<and> 0 < maxEpochs \<lparr>batchSize = 2, maxEpochs = 3, alpha = 1, maxError = 0\<rparr>
   \<and> train \<lparr>af = raising, numLayers = 2, signal = [[], []], weights = [[[0], [0]]]\<rparr> [[1]] [[1 / 2]]
        \<lparr>batchSize = 2, maxEpochs = 3, alpha = 1, maxError = 0\<rparr>
       = None"
proof -
  let ?net = "\<lparr>af = raising, numLayers = 2, signal = [[], []], weights = [[[0], [0 :: real]]]\<rparr>"
  let ?net1 = "\<lparr>af = raising, numLayers = 2, signal = [[[1]], [[1 / 2]]], weights = [[[0], [0 :: real]]]\<rparr>"
  let ?o1 = "\<lparr>batchSize = 1, maxEpochs = 3, alpha = 1, maxError = 0\<rparr>"
  let ?o2 = "\<lparr>batchSize = 2, maxEpochs = 3, alpha = 1, maxError = 0\<rparr>"
  have h1: "wfNet [1, 1] ?net" by (simp add: wfNet_def shape_def)
  have h2: "[1, 1 :: nat] \<noteq> []" by simp
  have h3: "shape [[1]] 1 ([1, 1] ! 0)" and h4: "shape [[1 / 2]] 1 (last [1, 1])"
    by (simp_all add: shape_def)
  have h5: "(0 :: nat) < 1" by simp
  have a6: "1 \<le> batchSize ?o1" and a7: "batchSize ?o1 < 2 ^ 53" and a8: "batchSize ?o1 = 1"
    by simp_all
  have b6: "1 \<le> batchSize ?o2" and b7: "batchSize ?o2 < 2 ^ 53" and b8: "1 < batchSize ?o2"
    and b9: "0 < maxEpochs ?o2"
    by simp_all
  note ta = train_degenerate [OF h1 h2 h3 h4 h5 a6 a7]
  note tb = train_degenerate [OF h1 h2 h3 h4 h5 b6 b7]
  from ta [THEN conjunct2, THEN conjunct2, THEN conjunct2, THEN conjunct2, THEN conjunct1,
      THEN mp, OF a8, THEN conjunct2, THEN conjunct2]
  obtain net1 out e where
    p: "predict ?net [[1]] = Some (net1, out)" and e: "calculateError out [[1 / 2]] = Some e"
    and t: "train ?net [[1]] [[1 / 2]] ?o1
              = Some (if maxEpochs ?o1 = 0 then (?net, Num 0) else (net1, e))"
    by (elim exE conjE)
  from p have "net1 = ?net1 \<and> out = [[1 / 2]]"
    unfolding predict_example by auto
  then have n1: "net1 = ?net1" and o: "out = [[1 / 2]]" by simp_all
  have "calculateError [[1 / 2]] [[1 / 2]] = Some (Num 0)"
    by (simp add: calculateError_def subT_def mulT_def zipT_def sameDims_def dims_def
        elements_def sumT_def)
  with e o have "e = Num 0" by simp
  with t n1 have r1: "train ?net [[1]] [[1 / 2]] ?o1 = Some (?net1, Num 0)" by simp
  have "rowsOut (af ?net) (validSeq ?o2 1 (numBatchesOf 1 (batchSize ?o2))) [[1]] = None"
    by (simp add: raising_def)
  with tb [THEN conjunct2, THEN conjunct2, THEN conjunct2, THEN conjunct2, THEN conjunct2,
      THEN mp, OF b8, THEN conjunct2, THEN conjunct2] b9
  have r2: "train ?net [[1]] [[1 / 2]] ?o2 = None" by (elim impE conjI)
  from h1 h2 h3 h4 h5 a6 a7 a8 r1 b8 b7 b9 r2 show ?thesis by (intro conjI)
qed

text \<open>
  C7 as stated fails for \<open>batchSize > numSamples\<close>: with 3 samples and the batch size 4 the
  validation \<open>Seq\<close> is \<open>(-1, 2)\<close>. With a library that raises on a \<open>Seq\<close> that leaves the
  array, \<open>train\<close> raises; with a library that counts a first index below 0 from the end,
  the validation slice is the last row only.
\<close>

theorem train_degenerate_counterexample:
  "wfNet [1, 1] \<lparr>af = raising, numLayers = 2, signal = [[], []], weights = [[[0], [0]]]\<rparr>
   \<and> shape [[1], [2], [3]] 3 1
   \<and> (3 :: nat) \<le> batchSize \<lparr>batchSize = 4, maxEpochs = 1, alpha = 1, maxError = 0\<rparr>
   \<and> validSeq \<lparr>batchSize = 4, maxEpochs = 1, alpha = 1, maxError = 0\<rparr> 3 (numBatchesOf 3 4)
       = \<lparr>seqBegin = - 1, seqEnd = 2\<rparr>
   \<and> train \<lparr>af = raising, numLayers = 2, signal = [[], []], weights = [[[0], [0]]]\<rparr>
        [[1], [2], [3]] [[1], [2], [3]] \<lparr>batchSize = 4, maxEpochs = 1, alpha = 1, maxError = 0\<rparr>
       = None
   \<and> rowsAt wrapping
        (validSeq \<lparr>batchSize = 4, maxEpochs = 1, alpha = 1, maxError = 0\<rparr> 3 (numBatchesOf 3 4))
        [[1], [2], [3]]
       = Some [[3]]"
proof -
  let ?o = "\<lparr>batchSize = 4, maxEpochs = 1, alpha = 1, maxError = 0\<rparr>"
  have nb: "numBatchesOf 3 4 = 3 / 4"
    using toDouble_dyadic [of 3 2] by (simp add: numBatchesOf_def jsDiv_def)
  have b1: "jsSub (3 / 4) 1 = - (1 / 4)"
    using toDouble_dyadic [of "- 1" 2] by (simp add: jsSub_def)
  have st: "jsMul (- (1 / 4)) 4 = - 1"
    using toDouble_int [of "- 1"] by (simp add: jsMul_def)
  have en: "jsSub 3 1 = 2"
    using toDouble_int [of 2] by (simp add: jsSub_def)
  have vs: "validSeq ?o 3 (numBatchesOf 3 4) = \<lparr>seqBegin = - 1, seqEnd = 2\<rparr>"
    by (simp add: validSeq_def nb b1 st en)
  let ?net = "\<lparr>af = raising, numLayers = 2, signal = [[], []], weights = [[[0], [0 :: real]]]\<rparr>"
  let ?x = "[[1], [2], [3 :: real]]"
  have d: "dims ?x 0 = 3" by (simp add: dims_def)
  have bl: "batchLoop ?o ?x ?x (numBatchesOf 3 4) 0 net0 = Some net0" for net0
    unfolding nb by (simp add: b1)
  have ra: "rowsAt (af (fst (?net, Num 0))) (validSeq ?o 3 (numBatchesOf 3 4)) ?x = None"
    unfolding vs by (simp add: rowsAt_def inRange_def raising_def)
  have ep: "epochLoop ?o ?x ?x 3 (numBatchesOf 3 4) (Suc 0) (?net, Num 0) = None"
    using bl ra by (rule epochLoop_raises)
  have "train ?net ?x ?x ?o = epochLoop ?o ?x ?x 3 (numBatchesOf 3 4) (Suc 0) (?net, Num 0)"
    unfolding train_def d by simp
  then have "train ?net ?x ?x ?o = None"
    unfolding ep .
  moreover have "rowsAt wrapping \<lparr>seqBegin = - 1, seqEnd = 2\<rparr> [[1], [2], [3]] = Some [[3]]"
    by (simp add: rowsAt_def inRange_def wrapping_def slice_def)
  ultimately show ?thesis
    unfolding vs by (simp add: wfNet_def shape_def)
qed


section \<open>A batch size that does not divide the number of samples\<close>














end
